theory Spec2Isabelle
  imports Complex_Main "HOL-Library.Word"
begin

section \<open>Strings of UTF-16 code units\<close>

text \<open>
  The server actions are TypeScript; a string is a sequence of 16-bit code units, and
  \<open>length\<close>, the regular expressions (which carry no \<open>u\<close> flag) and \<open>trim\<close> all work
  on code units. \<open>js\<close> writes an ASCII literal as such a string.
\<close>

type_synonym code_unit = "16 word"
type_synonym js_string = "code_unit list"

definition js :: "string \<Rightarrow> js_string" where
  "js s = map of_char s"

definition LT :: code_unit where "LT = 60"
definition GT :: code_unit where "GT = 62"
definition QUOT :: code_unit where "QUOT = 34"
definition APOS :: code_unit where "APOS = 39"
definition AMP :: code_unit where "AMP = 38"

text \<open>
  \<open>String.prototype.trim\<close> removes the white space and line terminators of ECMAScript from
  both ends.
\<close>

definition isWhiteSpace :: "code_unit \<Rightarrow> bool" where
  "isWhiteSpace c \<longleftrightarrow>
     c = 0x09 \<or> c = 0x0A \<or> c = 0x0B \<or> c = 0x0C \<or> c = 0x0D \<or> c = 0x20 \<or> c = 0xA0 \<or>
     c = 0x1680 \<or> (0x2000 \<le> c \<and> c \<le> 0x200A) \<or> c = 0x2028 \<or> c = 0x2029 \<or>
     c = 0x202F \<or> c = 0x205F \<or> c = 0x3000 \<or> c = 0xFEFF"

definition trim :: "js_string \<Rightarrow> js_string" where
  "trim s = rev (dropWhile isWhiteSpace (rev (dropWhile isWhiteSpace s)))"

text \<open>
  \<open>input.replace(/<[^>]*>/g, "")\<close>: scanning from the left, a \<open><\<close> that is followed
  somewhere by a \<open>>\<close> starts a match that ends at the first such \<open>>\<close> (the class
  \<open>[^>]\<close> admits every other code unit, another \<open><\<close> and line breaks included); the
  match is removed and the scan resumes after it. A \<open><\<close> with no \<open>>\<close> after it
  matches nothing and stays.
\<close>

function stripTags :: "js_string \<Rightarrow> js_string" where
  "stripTags [] = []"
| "stripTags (c # cs) =
     (if c = LT \<and> GT \<in> set cs
      then stripTags (tl (dropWhile (\<lambda>d. d \<noteq> GT) cs))
      else c # stripTags cs)"
  by pat_completeness auto
termination
proof (relation "measure length")
  show "wf (measure length)" by simp
next
  fix c :: code_unit and cs :: js_string
  have "length (tl (dropWhile (\<lambda>d. d \<noteq> GT) cs)) \<le> length cs"
    using length_dropWhile_le [of "\<lambda>d. d \<noteq> GT" cs] by simp
  then show "(tl (dropWhile (\<lambda>d. d \<noteq> GT) cs), c # cs) \<in> measure length" by simp
next
  fix c :: code_unit and cs :: js_string
  show "(cs, c # cs) \<in> measure length" by simp
qed

text \<open>
  \<open>.replace(/[<>'"&]/g, (char) => entities[char] || char)\<close> followed by \<open>.trim()\<close>.
\<close>

definition entity :: "code_unit \<Rightarrow> js_string" where
  "entity c =
     (if c = LT then js ''&lt;''
      else if c = GT then js ''&gt;''
      else if c = QUOT then js ''&quot;''
      else if c = APOS then js ''&#x27;''
      else if c = AMP then js ''&amp;''
      else [c])"

definition escapeEntities :: "js_string \<Rightarrow> js_string" where
  "escapeEntities s = concat (map entity s)"

definition sanitizeInput :: "js_string \<Rightarrow> js_string" where
  "sanitizeInput input = trim (escapeEntities (stripTags input))"


text \<open>
  A form entry that is absent is not a string, and \<open>sanitizeInput\<close> answers the empty
  string for it.
\<close>

definition sanitizeEntry :: "js_string option \<Rightarrow> js_string" where
  "sanitizeEntry input = (case input of None \<Rightarrow> [] | Some text \<Rightarrow> sanitizeInput text)"

section \<open>Input validation\<close>

text \<open>
  \<open>validatePollInput\<close> returns the first error of the question, then of the number of
  options, then of each option in turn, then of their uniqueness. The test
  \<open>/<script|javascript:|data:/i\<close> ignores case; without the \<open>u\<close> flag a code unit matches
  an ASCII letter of the pattern only if it is that letter in upper or lower case, which is
  \<open>foldCase\<close>. \<open>String.prototype.toLowerCase\<close> follows the Unicode case tables, which are
  no part of the repository: it is a parameter of the validation and of the two actions that
  call it. \<open>showNat\<close> is the decimal notation a template literal gives a number.
\<close>

definition MAX_QUESTION_LENGTH :: nat where "MAX_QUESTION_LENGTH = 500"
definition MAX_OPTION_LENGTH :: nat where "MAX_OPTION_LENGTH = 200"
definition MAX_OPTIONS :: nat where "MAX_OPTIONS = 10"
definition MIN_OPTIONS :: nat where "MIN_OPTIONS = 2"

fun showNat :: "nat \<Rightarrow> js_string" where
  "showNat n = (if n < 10 then [48 + of_nat n] else showNat (n div 10) @ [48 + of_nat (n mod 10)])"

definition showInt :: "int \<Rightarrow> js_string" where
  "showInt i = (if i < 0 then 45 # showNat (nat (- i)) else showNat (nat i))"

definition foldCase :: "code_unit \<Rightarrow> code_unit" where
  "foldCase c = (if 65 \<le> c \<and> c \<le> 90 then c + 32 else c)"

fun startsWith :: "js_string \<Rightarrow> js_string \<Rightarrow> bool" where
  "startsWith s [] = True"
| "startsWith [] (p # ps) = False"
| "startsWith (c # cs) (p # ps) = (c = p \<and> startsWith cs ps)"

fun containsStr :: "js_string \<Rightarrow> js_string \<Rightarrow> bool" where
  "containsStr [] p = startsWith [] p"
| "containsStr (c # cs) p = (startsWith (c # cs) p \<or> containsStr cs p)"

definition suspicious :: "js_string \<Rightarrow> bool" where
  "suspicious s =
     (let l = map foldCase s
      in containsStr l (js ''<script'') \<or> containsStr l (js ''javascript:'') \<or> containsStr l (js ''data:''))"

fun validateOptions :: "nat \<Rightarrow> js_string list \<Rightarrow> js_string option" where
  "validateOptions i [] = None"
| "validateOptions i (option # rest) =
     (if option = [] \<or> length (trim option) = 0
      then Some (js ''Option '' @ showNat (i + 1) @ js '' cannot be empty'')
      else if length option > MAX_OPTION_LENGTH
      then Some (js ''Option '' @ showNat (i + 1) @ js '' must be '' @ showNat MAX_OPTION_LENGTH
                 @ js '' characters or less'')
      else if suspicious option
      then Some (js ''Option '' @ showNat (i + 1) @ js '' contains invalid content'')
      else validateOptions (i + 1) rest)"

definition validatePollInput ::
  "(js_string \<Rightarrow> js_string) \<Rightarrow> js_string option \<Rightarrow> js_string list \<Rightarrow> js_string option" where
  "validatePollInput toLowerCase question options =
     (case question of
        None \<Rightarrow> Some (js ''Question is required'')
      | Some q \<Rightarrow>
          if q = [] \<or> length (trim q) = 0 then Some (js ''Question is required'')
          else if length q > MAX_QUESTION_LENGTH
          then Some (js ''Question must be '' @ showNat MAX_QUESTION_LENGTH @ js '' characters or less'')
          else if suspicious q then Some (js ''Question contains invalid content'')
          else if length options < MIN_OPTIONS
          then Some (js ''At least '' @ showNat MIN_OPTIONS @ js '' options are required'')
          else if length options > MAX_OPTIONS
          then Some (js ''Maximum '' @ showNat MAX_OPTIONS @ js '' options allowed'')
          else (case validateOptions 0 options of
                  Some e \<Rightarrow> Some e
                | None \<Rightarrow>
                    if length (remdups (map (\<lambda>opt. trim (toLowerCase opt)) options)) \<noteq> length options
                    then Some (js ''All options must be unique'')
                    else None))"

section \<open>The store\<close>

text \<open>
  The tables \<open>polls\<close>, \<open>votes\<close> and \<open>user_roles\<close> of the database script, with the
  columns the actions read and write. The store also records every statement it was sent, in
  order, and \<open>faults\<close> says which statements fail outright and with what message: the
  statement numbered \<open>k\<close> (counting from 0) fails when \<open>faults s k\<close> is a message. A
  response of the client to a delivered statement is either data or an error, as its type
  declares; \<open>.single()\<close> is an error unless exactly one row matches. The poll actions are
  modelled on delivered statements; an exchange that goes wrong in another way is modelled
  for \<open>isAdmin\<close>, below.

  Of the constraints of the script the model has the primary key of \<open>polls\<close>, the cascade
  from a deleted poll to its votes, and on \<open>votes\<close> the trigger that validates the option
  index against the poll, the check \<open>option_index >= 0\<close> and the unique index on
  \<open>(poll_id, user_id)\<close> for a non-null user. The row-level policies repeat the checks of
  the actions for the session's user and are not modelled, nor are the length checks on
  \<open>polls\<close>; a statement they would reject is one that \<open>faults\<close> fails.
\<close>

record poll_row =
  p_id :: js_string
  p_user_id :: js_string
  p_question :: js_string
  p_options :: "js_string list"

record vote_row =
  v_poll_id :: js_string
  v_user_id :: "js_string option"
  v_option_index :: int
  v_created_at :: int

record role_row =
  r_user_id :: js_string
  r_role :: js_string

datatype verb = Select | Insert | Update | Delete
datatype table = Polls | Votes | UserRoles
type_synonym statement = "verb \<times> table"

record store =
  polls :: "poll_row list"
  votes :: "vote_row list"
  user_roles :: "role_row list"
  statements :: "statement list"
  faults :: "nat \<Rightarrow> js_string option"

datatype 'a response = Success 'a | Failure js_string

fun data_of :: "'a response \<Rightarrow> 'a option" where
  "data_of (Success d) = Some d"
| "data_of (Failure e) = None"

definition send :: "statement \<Rightarrow> store \<Rightarrow> js_string option \<times> store" where
  "send q s = (faults s (length (statements s)), s\<lparr>statements := statements s @ [q]\<rparr>)"

definition not_single :: js_string where
  "not_single = js ''JSON object requested, multiple (or no) rows returned''"

fun single :: "'a list \<Rightarrow> 'a response" where
  "single [r] = Success r"
| "single rows = Failure not_single"

definition selectPollSingle :: "js_string \<Rightarrow> store \<Rightarrow> poll_row response \<times> store" where
  "selectPollSingle pid s =
     (case send (Select, Polls) s of
        (Some e, s') \<Rightarrow> (Failure e, s')
      | (None, s') \<Rightarrow> (single (filter (\<lambda>p. p_id p = pid) (polls s')), s'))"

definition duplicate_poll :: js_string where
  "duplicate_poll = js ''duplicate key value violates unique constraint \"polls_pkey\"''"

definition insertPoll :: "poll_row \<Rightarrow> store \<Rightarrow> unit response \<times> store" where
  "insertPoll row s =
     (case send (Insert, Polls) s of
        (Some e, s') \<Rightarrow> (Failure e, s')
      | (None, s') \<Rightarrow>
          if p_id row \<in> p_id ` set (polls s') then (Failure duplicate_poll, s')
          else (Success (), s'\<lparr>polls := polls s' @ [row]\<rparr>))"

definition updatePollWhere ::
  "js_string \<Rightarrow> js_string \<Rightarrow> js_string \<Rightarrow> js_string list \<Rightarrow> store \<Rightarrow> unit response \<times> store" where
  "updatePollWhere pid uid q opts s =
     (case send (Update, Polls) s of
        (Some e, s') \<Rightarrow> (Failure e, s')
      | (None, s') \<Rightarrow>
          (Success (),
           s'\<lparr>polls := map (\<lambda>p. if p_id p = pid \<and> p_user_id p = uid
                                 then p\<lparr>p_question := q, p_options := opts\<rparr> else p) (polls s')\<rparr>))"

definition deletePollWhere :: "js_string \<Rightarrow> store \<Rightarrow> unit response \<times> store" where
  "deletePollWhere pid s =
     (case send (Delete, Polls) s of
        (Some e, s') \<Rightarrow> (Failure e, s')
      | (None, s') \<Rightarrow>
          (Success (),
           s'\<lparr>polls := filter (\<lambda>p. p_id p \<noteq> pid) (polls s'),
              votes := filter (\<lambda>v. v_poll_id v \<noteq> pid) (votes s')\<rparr>))"

definition selectVoteSingle :: "js_string \<Rightarrow> js_string \<Rightarrow> store \<Rightarrow> vote_row response \<times> store" where
  "selectVoteSingle pid uid s =
     (case send (Select, Votes) s of
        (Some e, s') \<Rightarrow> (Failure e, s')
      | (None, s') \<Rightarrow>
          (single (filter (\<lambda>v. v_poll_id v = pid \<and> v_user_id v = Some uid) (votes s')), s'))"

definition selectVotesSince :: "js_string \<Rightarrow> int \<Rightarrow> store \<Rightarrow> vote_row list response \<times> store" where
  "selectVotesSince uid since s =
     (case send (Select, Votes) s of
        (Some e, s') \<Rightarrow> (Failure e, s')
      | (None, s') \<Rightarrow>
          (Success (filter (\<lambda>v. v_user_id v = Some uid \<and> since \<le> v_created_at v) (votes s')), s'))"

definition bad_option_index :: js_string where
  "bad_option_index = js ''Invalid option index for poll''"

definition negative_option_index :: js_string where
  "negative_option_index =
     js ''new row for relation \"votes\" violates check constraint \"votes_option_index_check\"''"

definition duplicate_vote :: js_string where
  "duplicate_vote =
     js ''duplicate key value violates unique constraint \"idx_votes_unique_user_poll\"''"

definition insertVote :: "vote_row \<Rightarrow> store \<Rightarrow> unit response \<times> store" where
  "insertVote row s =
     (case send (Insert, Votes) s of
        (Some e, s') \<Rightarrow> (Failure e, s')
      | (None, s') \<Rightarrow>
          if \<not> (\<exists>p \<in> set (polls s'). p_id p = v_poll_id row
                    \<and> v_option_index row < int (length (p_options p)))
          then (Failure bad_option_index, s')
          else if v_option_index row < 0 then (Failure negative_option_index, s')
          else if v_user_id row \<noteq> None
                  \<and> (\<exists>v \<in> set (votes s'). v_poll_id v = v_poll_id row \<and> v_user_id v = v_user_id row)
          then (Failure duplicate_vote, s')
          else (Success (), s'\<lparr>votes := votes s' @ [row]\<rparr>))"

definition selectAdminRoleSingle :: "js_string \<Rightarrow> store \<Rightarrow> role_row response \<times> store" where
  "selectAdminRoleSingle uid s =
     (case send (Select, UserRoles) s of
        (Some e, s') \<Rightarrow> (Failure e, s')
      | (None, s') \<Rightarrow>
          (single (filter (\<lambda>r. r_user_id r = uid \<and> r_role r = js ''admin'') (user_roles s')), s'))"


section \<open>Server actions\<close>

text \<open>
  An action returns the object \<open>{ error }\<close>; the model returns the error (\<open>None\<close> for
  \<open>null\<close>) and the store after the call. \<open>auth_response\<close> is what
  \<open>supabase.auth.getUser()\<close> gave: the id of the session's user, if any, and the error
  message, if any. A form holds the entry \<open>question\<close>, if present, and the entries
  \<open>options\<close>.

  The option index arrives from the client and may be any value: a finite number, NaN, an
  infinity, or something that is not a number at all.
\<close>

record auth_response =
  user :: "js_string option"
  userError :: "js_string option"

record form_data =
  fd_question :: "js_string option"
  fd_options :: "js_string list"

datatype js_value = JNumber rat | JNaN | JInfinity | JNegInfinity | JOther

fun isNumber :: "js_value \<Rightarrow> bool" where
  "isNumber JOther = False"
| "isNumber v = True"

fun lessThanZero :: "js_value \<Rightarrow> bool" where
  "lessThanZero (JNumber q) = (q < 0)"
| "lessThanZero JNegInfinity = True"
| "lessThanZero v = False"

fun isInteger :: "js_value \<Rightarrow> bool" where
  "isInteger (JNumber q) = (of_int \<lfloor>q\<rfloor> = q)"
| "isInteger v = False"

fun atLeastLength :: "js_value \<Rightarrow> nat \<Rightarrow> bool" where
  "atLeastLength (JNumber q) n = (of_nat n \<le> q)"
| "atLeastLength JInfinity n = True"
| "atLeastLength v n = False"

fun toInteger :: "js_value \<Rightarrow> int" where
  "toInteger (JNumber q) = \<lfloor>q\<rfloor>"
| "toInteger v = 0"

text \<open>
  \<open>newId\<close> is the id that \<open>gen_random_uuid()\<close> gives the new row.
\<close>

definition createPoll ::
  "(js_string \<Rightarrow> js_string) \<Rightarrow> auth_response \<Rightarrow> js_string \<Rightarrow> form_data \<Rightarrow> store
     \<Rightarrow> js_string option \<times> store" where
  "createPoll toLowerCase auth newId formData s =
     (let rawQuestion = fd_question formData;
          rawOptions = filter (\<lambda>option. option \<noteq> []) (fd_options formData)
      in case validatePollInput toLowerCase rawQuestion rawOptions of
           Some validationError \<Rightarrow> (Some validationError, s)
         | None \<Rightarrow>
             (let question = sanitizeEntry rawQuestion;
                  options = map sanitizeInput rawOptions
              in (case userError auth of
                    Some message \<Rightarrow> (Some message, s)
                  | None \<Rightarrow>
                      (case user auth of
                         None \<Rightarrow> (Some (js ''You must be logged in to create a poll.''), s)
                       | Some uid \<Rightarrow>
                           (case insertPoll \<lparr>p_id = newId, p_user_id = uid,
                                              p_question = question, p_options = options\<rparr> s of
                              (Failure message, s') \<Rightarrow> (Some message, s')
                            | (Success u, s') \<Rightarrow> (None, s'))))))"

definition getPollById :: "js_string \<Rightarrow> store \<Rightarrow> (poll_row option \<times> js_string option) \<times> store" where
  "getPollById ident s =
     (case selectPollSingle ident s of
        (Failure message, s') \<Rightarrow> ((None, Some message), s')
      | (Success row, s') \<Rightarrow> ((Some row, None), s'))"

text \<open>
  \<open>now\<close> is \<open>Date.now()\<close> when the recent votes are counted, \<open>insertedAt\<close> the
  \<open>created_at\<close> the database gives the new row. The query for an existing vote is built
  before the user is looked at and sent only for a signed-in user.
\<close>

definition submitVote ::
  "auth_response \<Rightarrow> int \<Rightarrow> int \<Rightarrow> js_string \<Rightarrow> js_value \<Rightarrow> store \<Rightarrow> js_string option \<times> store" where
  "submitVote auth now insertedAt pollId optionIndex s =
     (if pollId = [] \<or> length pollId < 10 then (Some (js ''Invalid poll ID''), s)
      else if \<not> isNumber optionIndex \<or> lessThanZero optionIndex \<or> \<not> isInteger optionIndex
      then (Some (js ''Invalid option selection''), s)
      else case selectPollSingle pollId s of
             (Failure pollError, s1) \<Rightarrow> (Some (js ''Poll not found''), s1)
           | (Success pollData, s1) \<Rightarrow>
               if atLeastLength optionIndex (length (p_options pollData))
               then (Some (js ''Invalid option selected''), s1)
               else (case user auth of
                       None \<Rightarrow> (Some (js ''Please log in to vote''), s1)
                     | Some uid \<Rightarrow>
                         if uid = [] then (Some (js ''Please log in to vote''), s1)
                         else (case selectVoteSingle pollId uid s1 of
                                 (existingVote, s2) \<Rightarrow>
                                   if data_of existingVote \<noteq> None
                                   then (Some (js ''You have already voted on this poll''), s2)
                                   else (case selectVotesSince uid (now - 60000) s2 of
                                           (recentVotes, s3) \<Rightarrow>
                                             if (case data_of recentVotes of
                                                   Some rows \<Rightarrow> length rows \<ge> 5
                                                 | None \<Rightarrow> False)
                                             then (Some (js ''Too many votes. Please wait a moment.''), s3)
                                             else (case insertVote
                                                          \<lparr>v_poll_id = pollId, v_user_id = Some uid,
                                                           v_option_index = toInteger optionIndex,
                                                           v_created_at = insertedAt\<rparr> s3 of
                                                     (Failure message, s4) \<Rightarrow>
                                                       (Some (js ''Failed to submit vote. Please try again.''), s4)
                                                   | (Success u, s4) \<Rightarrow> (None, s4))))))"

definition deletePoll :: "auth_response \<Rightarrow> js_string \<Rightarrow> store \<Rightarrow> js_string option \<times> store" where
  "deletePoll auth ident s =
     (if userError auth \<noteq> None then (Some (js ''Authentication failed''), s)
      else case user auth of
             None \<Rightarrow> (Some (js ''You must be logged in to delete a poll''), s)
           | Some uid \<Rightarrow>
               (case selectPollSingle ident s of
                  (Failure fetchError, s1) \<Rightarrow> (Some (js ''Poll not found''), s1)
                | (Success pollData, s1) \<Rightarrow>
                    (case (if p_user_id pollData \<noteq> uid
                           then (case selectAdminRoleSingle uid s1 of
                                   (roleData, s2) \<Rightarrow> (data_of roleData = None, s2))
                           else (False, s1)) of
                       (True, s2) \<Rightarrow> (Some (js ''You can only delete your own polls''), s2)
                     | (False, s2) \<Rightarrow>
                         (case deletePollWhere ident s2 of
                            (Failure message, s3) \<Rightarrow> (Some (js ''Failed to delete poll''), s3)
                          | (Success u, s3) \<Rightarrow> (None, s3)))))"

definition updatePoll ::
  "(js_string \<Rightarrow> js_string) \<Rightarrow> auth_response \<Rightarrow> js_string \<Rightarrow> form_data \<Rightarrow> store
     \<Rightarrow> js_string option \<times> store" where
  "updatePoll toLowerCase auth pollId formData s =
     (let rawQuestion = fd_question formData;
          rawOptions = filter (\<lambda>option. option \<noteq> []) (fd_options formData)
      in if pollId = [] \<or> length pollId < 10 then (Some (js ''Invalid poll ID''), s)
         else case validatePollInput toLowerCase rawQuestion rawOptions of
                Some validationError \<Rightarrow> (Some validationError, s)
              | None \<Rightarrow>
                  (let question = sanitizeEntry rawQuestion;
                       options = map sanitizeInput rawOptions
                   in (case userError auth of
                         Some message \<Rightarrow> (Some message, s)
                       | None \<Rightarrow>
                           (case user auth of
                              None \<Rightarrow> (Some (js ''You must be logged in to update a poll.''), s)
                            | Some uid \<Rightarrow>
                                (case updatePollWhere pollId uid question options s of
                                   (Failure message, s') \<Rightarrow> (Some message, s')
                                 | (Success u, s') \<Rightarrow> (None, s'))))))"

text \<open>
  \<open>isAdmin\<close> destructures \<open>data\<close> from what the awaited query resolves to and returns
  \<open>!!data\<close>; it never reads \<open>error\<close>. The reply is the object \<open>{ data, error }\<close>:
  \<open>data\<close> is \<open>null\<close>, a row, or an array of rows, and everything but \<open>null\<close> is
  truthy, the empty array included. For a delivered statement the reply is the row with no
  error, or no data with the error. The client has one more answer: an HTTP reply with status
  404 whose body is a JSON array is reported as \<open>{ data: [], error: null }\<close>. How the
  exchange goes is a parameter of \<open>isAdmin\<close>.
\<close>

datatype 'a js_data = JNull | JObject 'a | JArray "'a list"


record 'a reply =
  data :: "'a js_data"
  error :: "js_string option"






section \<open>Concurrent vote submissions\<close>

text \<open>
  Server actions run on one thread and give way at every \<open>await\<close>. A call of
  \<open>submitVote\<close> awaits four statements of the store: the poll lookup, the query for an
  existing vote, the query for recent votes, and the insert. One step of a call is one of
  these statements together with the code that follows it up to the next statement; the
  store executes one statement at a time. \<open>vote_step\<close> takes the step of a call that
  stands at \<open>pc\<close>, at time \<open>t\<close>; a schedule lists which call steps next, and when.
  The code that follows the query for an existing vote reads \<open>Date.now()\<close> and builds the
  query for recent votes, so the cutoff \<open>oneMinuteAgo\<close> is fixed in that step and carried
  to the next.
\<close>

datatype vote_pc =
    Begin
  | AwaitVote js_string
  | AwaitRecent js_string int
  | AwaitInsert js_string
  | Returned "js_string option"

record vote_call =
  c_auth :: auth_response
  c_pollId :: js_string
  c_optionIndex :: js_value

fun vote_step :: "vote_call \<Rightarrow> int \<Rightarrow> vote_pc \<Rightarrow> store \<Rightarrow> vote_pc \<times> store" where
  "vote_step c t Begin s =
     (if c_pollId c = [] \<or> length (c_pollId c) < 10 then (Returned (Some (js ''Invalid poll ID'')), s)
      else if \<not> isNumber (c_optionIndex c) \<or> lessThanZero (c_optionIndex c)
              \<or> \<not> isInteger (c_optionIndex c)
      then (Returned (Some (js ''Invalid option selection'')), s)
      else case selectPollSingle (c_pollId c) s of
             (Failure pollError, s1) \<Rightarrow> (Returned (Some (js ''Poll not found'')), s1)
           | (Success pollData, s1) \<Rightarrow>
               if atLeastLength (c_optionIndex c) (length (p_options pollData))
               then (Returned (Some (js ''Invalid option selected'')), s1)
               else (case user (c_auth c) of
                       None \<Rightarrow> (Returned (Some (js ''Please log in to vote'')), s1)
                     | Some uid \<Rightarrow>
                         if uid = [] then (Returned (Some (js ''Please log in to vote'')), s1)
                         else (AwaitVote uid, s1)))"
| "vote_step c t (AwaitVote uid) s =
     (case selectVoteSingle (c_pollId c) uid s of
        (existingVote, s2) \<Rightarrow>
          if data_of existingVote \<noteq> None
          then (Returned (Some (js ''You have already voted on this poll'')), s2)
          else (AwaitRecent uid (t - 60000), s2))"
| "vote_step c t (AwaitRecent uid oneMinuteAgo) s =
     (case selectVotesSince uid oneMinuteAgo s of
        (recentVotes, s3) \<Rightarrow>
          if (case data_of recentVotes of Some rows \<Rightarrow> length rows \<ge> 5 | None \<Rightarrow> False)
          then (Returned (Some (js ''Too many votes. Please wait a moment.'')), s3)
          else (AwaitInsert uid, s3))"
| "vote_step c t (AwaitInsert uid) s =
     (case insertVote \<lparr>v_poll_id = c_pollId c, v_user_id = Some uid,
                       v_option_index = toInteger (c_optionIndex c), v_created_at = t\<rparr> s of
        (Failure message, s4) \<Rightarrow> (Returned (Some (js ''Failed to submit vote. Please try again.'')), s4)
      | (Success u, s4) \<Rightarrow> (Returned None, s4))"
| "vote_step c t (Returned r) s = (Returned r, s)"

type_synonym system = "vote_pc list \<times> store"

definition advance :: "vote_call list \<Rightarrow> nat \<times> int \<Rightarrow> system \<Rightarrow> system" where
  "advance calls e sys =
     (case e of (i, t) \<Rightarrow>
        (case sys of (pcs, s) \<Rightarrow>
           if i < length pcs \<and> i < length calls
           then (case vote_step (calls ! i) t (pcs ! i) s of (pc', s') \<Rightarrow> (pcs[i := pc'], s'))
           else (pcs, s)))"

definition interleave :: "vote_call list \<Rightarrow> (nat \<times> int) list \<Rightarrow> store \<Rightarrow> system" where
  "interleave calls schedule s = fold (advance calls) schedule (replicate (length calls) Begin, s)"

section \<open>Request rate limiting\<close>

text \<open>
  The middleware keeps, per client key, the count of requests and the time the window was
  opened. \<open>sweep\<close> is the periodic cleanup. \<open>updateSession\<close> answers a limited request
  itself; what it does with any other request (the origin check, the session refresh, the
  redirects) is the parameter \<open>rest\<close>. The clock is read once per request.
\<close>

record request =
  req_ip :: "js_string option"
  req_forwarded_for :: "js_string option"
  req_user_agent :: "js_string option"

record rate_entry =
  count :: nat
  timestamp :: int

type_synonym rate_map = "js_string \<Rightarrow> rate_entry option"

record http_response =
  status :: nat
  body :: js_string
  headers :: "(js_string \<times> js_string) list"

definition orElse :: "js_string option \<Rightarrow> js_string \<Rightarrow> js_string" where
  "orElse v d = (case v of None \<Rightarrow> d | Some x \<Rightarrow> if x = [] then d else x)"

definition getRateLimitKey :: "request \<Rightarrow> js_string" where
  "getRateLimitKey request =
     (let ip = orElse (req_ip request) (orElse (req_forwarded_for request) (js ''unknown''));
          userAgent = orElse (req_user_agent request) (js ''unknown'')
      in ip @ js ''-'' @ take 50 userAgent)"

definition sweep :: "int \<Rightarrow> rate_map \<Rightarrow> rate_map" where
  "sweep now m =
     (let fiveMinutesAgo = now - 5 * 60 * 1000
      in (\<lambda>key. case m key of
                   None \<Rightarrow> None
                 | Some v \<Rightarrow> if timestamp v < fiveMinutesAgo then None else Some v))"

definition isRateLimited :: "request \<Rightarrow> int \<Rightarrow> rate_map \<Rightarrow> bool \<times> rate_map" where
  "isRateLimited request now m =
     (let key = getRateLimitKey request;
          windowMs = 5 * 60 * 1000;
          maxRequests = 100
      in case m key of
           None \<Rightarrow> (False, m(key \<mapsto> \<lparr>count = 1, timestamp = now\<rparr>))
         | Some current \<Rightarrow>
             if now - timestamp current > windowMs
             then (False, m(key \<mapsto> \<lparr>count = 1, timestamp = now\<rparr>))
             else if count current \<ge> maxRequests then (True, m)
             else (False, m(key \<mapsto> current\<lparr>count := count current + 1\<rparr>)))"

definition tooManyRequests :: "int \<Rightarrow> http_response" where
  "tooManyRequests now =
     \<lparr>status = 429, body = js ''Too many requests'',
      headers = [(js ''Retry-After'', js ''300''),
                 (js ''X-RateLimit-Limit'', js ''100''),
                 (js ''X-RateLimit-Remaining'', js ''0''),
                 (js ''X-RateLimit-Reset'', showInt (now + 5 * 60 * 1000))]\<rparr>"

definition updateSession ::
  "(request \<Rightarrow> http_response) \<Rightarrow> request \<Rightarrow> int \<Rightarrow> rate_map \<Rightarrow> http_response \<times> rate_map" where
  "updateSession rest request now m =
     (case isRateLimited request now m of
        (True, m') \<Rightarrow> (tooManyRequests now, m')
      | (False, m') \<Rightarrow> (rest request, m'))"

fun serve ::
  "(request \<Rightarrow> http_response) \<Rightarrow> request \<Rightarrow> int list \<Rightarrow> rate_map \<Rightarrow> http_response list" where
  "serve rest request [] m = []"
| "serve rest request (now # later) m =
     (case updateSession rest request now m of
        (response, m') \<Rightarrow> response # serve rest request later m')"

section \<open>Auxiliary notions used in the statements\<close>

text \<open>
  \<open>special\<close> are the five characters that are escaped; \<open>ink\<close> counts the code units
  that are not white space. \<open>issued s s'\<close> are the statements sent between two states of
  the store; \<open>nextFault s k\<close> is the fault of the \<open>k\<close>-th statement sent from \<open>s\<close> on;
  the \<open>Rows\<close> functions are the rows a query selects.
\<close>

definition special :: "code_unit \<Rightarrow> bool" where
  "special c \<longleftrightarrow> c = LT \<or> c = GT \<or> c = QUOT \<or> c = APOS \<or> c = AMP"

definition ink :: "js_string \<Rightarrow> nat" where
  "ink s = length (filter (\<lambda>c. \<not> isWhiteSpace c) s)"

definition issued :: "store \<Rightarrow> store \<Rightarrow> statement list" where
  "issued s s' = drop (length (statements s)) (statements s')"

definition adminRows :: "js_string \<Rightarrow> store \<Rightarrow> role_row list" where
  "adminRows uid s = filter (\<lambda>r. r_user_id r = uid \<and> r_role r = js ''admin'') (user_roles s)"

definition pollRows :: "js_string \<Rightarrow> store \<Rightarrow> poll_row list" where
  "pollRows pid s = filter (\<lambda>p. p_id p = pid) (polls s)"

definition voteRows :: "js_string \<Rightarrow> js_string \<Rightarrow> store \<Rightarrow> vote_row list" where
  "voteRows pid uid s = filter (\<lambda>v. v_poll_id v = pid \<and> v_user_id v = Some uid) (votes s)"

definition recentRows :: "js_string \<Rightarrow> int \<Rightarrow> store \<Rightarrow> vote_row list" where
  "recentRows uid since s = filter (\<lambda>v. v_user_id v = Some uid \<and> since \<le> v_created_at v) (votes s)"

definition nextFault :: "store \<Rightarrow> nat \<Rightarrow> js_string option" where
  "nextFault s k = faults s (length (statements s) + k)"

section \<open>The gates of a vote submission\<close>

text \<open>
  The checks of a vote submission, each stated on the arguments and on the store before the
  call, with the error of each. \<open>inRange v n\<close> says that \<open>v\<close> is a whole number from 0
  up to, not including, \<open>n\<close>.
\<close>

datatype gate =
    PollIdFormat | IndexWellFormed | PollLookup | IndexBounds
  | SignedIn | NoEarlierVote | VoteCeiling | InsertAccepted

definition gateOrder :: "gate list" where
  "gateOrder = [PollIdFormat, IndexWellFormed, PollLookup, IndexBounds,
                SignedIn, NoEarlierVote, VoteCeiling, InsertAccepted]"

fun gateFails :: "auth_response \<Rightarrow> int \<Rightarrow> js_string \<Rightarrow> js_value \<Rightarrow> store \<Rightarrow> gate \<Rightarrow> bool" where
  "gateFails auth now pollId optionIndex s PollIdFormat = (length pollId < 10)"
| "gateFails auth now pollId optionIndex s IndexWellFormed =
     (\<not> isNumber optionIndex \<or> lessThanZero optionIndex \<or> \<not> isInteger optionIndex)"
| "gateFails auth now pollId optionIndex s PollLookup =
     (nextFault s 0 \<noteq> None \<or> length (pollRows pollId s) \<noteq> 1)"
| "gateFails auth now pollId optionIndex s IndexBounds =
     (\<exists>p \<in> set (pollRows pollId s). atLeastLength optionIndex (length (p_options p)))"
| "gateFails auth now pollId optionIndex s SignedIn =
     (case user auth of None \<Rightarrow> True | Some uid \<Rightarrow> uid = [])"
| "gateFails auth now pollId optionIndex s NoEarlierVote =
     (case user auth of
        None \<Rightarrow> False
      | Some uid \<Rightarrow> nextFault s 1 = None \<and> length (voteRows pollId uid s) = 1)"
| "gateFails auth now pollId optionIndex s VoteCeiling =
     (case user auth of
        None \<Rightarrow> False
      | Some uid \<Rightarrow> nextFault s 2 = None \<and> 5 \<le> length (recentRows uid (now - 60000) s))"
| "gateFails auth now pollId optionIndex s InsertAccepted =
     (case user auth of
        None \<Rightarrow> False
      | Some uid \<Rightarrow> nextFault s 3 \<noteq> None \<or> voteRows pollId uid s \<noteq> [])"

fun gateError :: "gate \<Rightarrow> js_string" where
  "gateError PollIdFormat = js ''Invalid poll ID''"
| "gateError IndexWellFormed = js ''Invalid option selection''"
| "gateError PollLookup = js ''Poll not found''"
| "gateError IndexBounds = js ''Invalid option selected''"
| "gateError SignedIn = js ''Please log in to vote''"
| "gateError NoEarlierVote = js ''You have already voted on this poll''"
| "gateError VoteCeiling = js ''Too many votes. Please wait a moment.''"
| "gateError InsertAccepted = js ''Failed to submit vote. Please try again.''"

definition inRange :: "js_value \<Rightarrow> nat \<Rightarrow> bool" where
  "inRange v n \<longleftrightarrow> (\<exists>k < n. v = JNumber (of_nat k))"

section \<open>Notions for the concurrent runs\<close>

text \<open>
  \<open>rank\<close> counts the steps a call has taken. \<open>voteInv\<close> is what holds of every
  reachable state when all calls are of one principal for one poll: either no vote has been
  added and no call has returned, or one vote of the principal has been added and exactly one
  call has succeeded; a cutoff that a call carries is one for which the principal had fewer
  than five votes at the start.
\<close>

fun rank :: "vote_pc \<Rightarrow> nat" where
  "rank Begin = 0"
| "rank (AwaitVote uid) = 1"
| "rank (AwaitRecent uid oneMinuteAgo) = 2"
| "rank (AwaitInsert uid) = 3"
| "rank (Returned r) = 4"

fun isReturned :: "vote_pc \<Rightarrow> bool" where
  "isReturned (Returned r) = True"
| "isReturned pc = False"

definition rejection :: "js_string \<Rightarrow> bool" where
  "rejection e \<longleftrightarrow>
     e = js ''You have already voted on this poll''
     \<or> e = js ''Too many votes. Please wait a moment.''
     \<or> e = js ''Failed to submit vote. Please try again.''"

fun okPc :: "js_string \<Rightarrow> store \<Rightarrow> vote_pc \<Rightarrow> bool" where
  "okPc uid s0 Begin = True"
| "okPc uid s0 (AwaitVote u) = (u = uid)"
| "okPc uid s0 (AwaitRecent u oneMinuteAgo) =
     (u = uid \<and> length (recentRows uid oneMinuteAgo s0) < 5)"
| "okPc uid s0 (AwaitInsert u) = (u = uid)"
| "okPc uid s0 (Returned None) = True"
| "okPc uid s0 (Returned (Some e)) = rejection e"

definition sameVoter :: "js_string \<Rightarrow> js_string \<Rightarrow> nat \<Rightarrow> vote_call \<Rightarrow> bool" where
  "sameVoter uid pollId n c \<longleftrightarrow>
     user (c_auth c) = Some uid \<and> c_pollId c = pollId \<and> inRange (c_optionIndex c) n"

definition voteInv :: "js_string \<Rightarrow> js_string \<Rightarrow> store \<Rightarrow> nat \<Rightarrow> system \<Rightarrow> bool" where
  "voteInv uid pollId s0 n sys \<longleftrightarrow>
     (case sys of (pcs, s) \<Rightarrow>
        length pcs = n \<and> polls s = polls s0 \<and> faults s = faults s0
        \<and> list_all (okPc uid s0) pcs
        \<and> ((votes s = votes s0 \<and> list_all (\<lambda>pc. \<not> isReturned pc) pcs)
            \<or> (\<exists>row. votes s = votes s0 @ [row] \<and> v_poll_id row = pollId
                   \<and> v_user_id row = Some uid \<and> count_list pcs (Returned None) = 1)))"

section \<open>Example data\<close>

text \<open>
  Alice owns the poll \<open>Best color?\<close> with the options Red and Blue; Bob is another user;
  Carol holds the admin role. \<open>asciiLowerCase\<close> is \<open>toLowerCase\<close> on ASCII strings.
\<close>

definition alice :: js_string where "alice = js ''user-alice''"
definition bob :: js_string where "bob = js ''user-bob''"
definition carol :: js_string where "carol = js ''user-carol''"
definition pollA :: js_string where "pollA = js ''poll-0000-0001''"

definition authOf :: "js_string \<Rightarrow> auth_response" where
  "authOf uid = \<lparr>user = Some uid, userError = None\<rparr>"

definition anonymous :: auth_response where
  "anonymous = \<lparr>user = None, userError = None\<rparr>"

definition bestColor :: poll_row where
  "bestColor = \<lparr>p_id = pollA, p_user_id = alice, p_question = js ''Best color?'',
                 p_options = [js ''Red'', js ''Blue'']\<rparr>"

definition store0 :: store where
  "store0 = \<lparr>polls = [bestColor], votes = [],
              user_roles = [\<lparr>r_user_id = carol, r_role = js ''admin''\<rparr>],
              statements = [], faults = (\<lambda>n. None)\<rparr>"

definition asciiLowerCase :: "js_string \<Rightarrow> js_string" where
  "asciiLowerCase s = map foldCase s"

definition newForm :: form_data where
  "newForm = \<lparr>fd_question = Some (js ''Best colour?''), fd_options = [js ''Red'', js ''Green'']\<rparr>"

definition pollB :: js_string where "pollB = js ''poll-0000-0002''"

definition internalMessage :: js_string where
  "internalMessage = js ''FATAL: password authentication failed for user \"supabase_admin\"''"

definition rawOptionsOf :: "form_data \<Rightarrow> js_string list" where
  "rawOptionsOf formData = filter (\<lambda>option. option \<noteq> []) (fd_options formData)"

definition request0 :: request where
  "request0 = \<lparr>req_ip = Some (js ''203.0.113.7''), req_forwarded_for = None,
                req_user_agent = Some (js ''curl/8.0'')\<rparr>"

definition okResponse :: http_response where
  "okResponse = \<lparr>status = 200, body = [], headers = []\<rparr>"

definition bobVote :: "rat \<Rightarrow> vote_call" where
  "bobVote i = \<lparr>c_auth = authOf bob, c_pollId = pollA, c_optionIndex = JNumber i\<rparr>"

definition racing :: "(nat \<times> int) list" where
  "racing = [(0, 1), (1, 2), (0, 3), (1, 4), (0, 5), (1, 6), (0, 7), (1, 8)]"

section \<open>Properties of the sanitizer\<close>

lemmas special_defs = LT_def GT_def QUOT_def APOS_def AMP_def

lemma set_trim_subset: "set (trim s) \<subseteq> set s"
proof -
  have "set (trim s) = set (dropWhile isWhiteSpace (rev (dropWhile isWhiteSpace s)))"
    by (simp add: trim_def)
  also have "\<dots> \<subseteq> set (rev (dropWhile isWhiteSpace s))"
    by (rule set_dropWhileD [THEN subsetI]) 
  also have "\<dots> \<subseteq> set s"
    using set_dropWhileD [of _ isWhiteSpace s] by auto
  finally show ?thesis .
qed

lemma entity_no_angle: "LT \<notin> set (entity c) \<and> GT \<notin> set (entity c)"
  by (simp add: entity_def js_def special_defs)

lemma entity_no_quote: "QUOT \<notin> set (entity c) \<and> APOS \<notin> set (entity c)"
  by (simp add: entity_def js_def special_defs)

lemma escapeEntities_no_angle: "LT \<notin> set (escapeEntities s) \<and> GT \<notin> set (escapeEntities s)"
  using entity_no_angle by (auto simp: escapeEntities_def)

lemma escapeEntities_no_quote: "QUOT \<notin> set (escapeEntities s) \<and> APOS \<notin> set (escapeEntities s)"
  using entity_no_quote by (auto simp: escapeEntities_def)

lemma stripTags_no_LT: "LT \<notin> set s \<Longrightarrow> stripTags s = s"
  by (induction s) auto

lemma entity_plain: "\<not> special c \<Longrightarrow> entity c = [c]"
  by (simp add: entity_def special_def)

lemma escapeEntities_plain: "\<forall>c \<in> set s. \<not> special c \<Longrightarrow> escapeEntities s = s"
  by (induction s) (simp_all add: escapeEntities_def entity_plain)

lemma dropWhile_rev_dropWhile:
  "dropWhile P (rev (dropWhile P (rev (dropWhile P s)))) = rev (dropWhile P (rev (dropWhile P s)))"
proof -
  define t where "t = dropWhile P s"
  define r where "r = rev (dropWhile P (rev t))"
  have "dropWhile P r = r"
  proof (cases r)
    case Nil
    then show ?thesis by simp
  next
    case (Cons a as)
    have split: "t = r @ rev (takeWhile P (rev t))"
      unfolding r_def by (metis rev_append rev_rev_ident takeWhile_dropWhile_id)
    then have "t \<noteq> []" using Cons by auto
    then have "\<not> P (hd t)" unfolding t_def by (metis hd_dropWhile)
    moreover have "hd t = a" using split Cons by (metis hd_append2 list.sel(1) list.distinct(1))
    ultimately show ?thesis using Cons by simp
  qed
  then show ?thesis by (simp add: r_def t_def)
qed

lemma trim_trim: "trim (trim s) = trim s"
proof -
  let ?P = isWhiteSpace
  have a: "dropWhile ?P (trim s) = trim s"
    unfolding trim_def by (rule dropWhile_rev_dropWhile)
  have b: "dropWhile ?P (rev (trim s)) = rev (trim s)"
    unfolding trim_def by simp
  show ?thesis
    unfolding trim_def [of "trim s"] a b by simp
qed

lemma filter_dropWhile_not: "filter (\<lambda>c. \<not> P c) (dropWhile P s) = filter (\<lambda>c. \<not> P c) s"
  by (induction s) auto

lemma filter_trim: "filter (\<lambda>c. \<not> isWhiteSpace c) (trim s) = filter (\<lambda>c. \<not> isWhiteSpace c) s"
  by (simp add: trim_def filter_dropWhile_not flip: rev_filter)

lemma ink_trim: "ink (trim s) = ink s"
  by (simp add: ink_def filter_trim)

lemma ink_entity: "ink [c] \<le> ink (entity c)"
  by (simp add: ink_def entity_def js_def special_defs isWhiteSpace_def)

lemma ink_entity_AMP: "ink (entity AMP) = 5" "ink [AMP] = 1"
  by (simp_all add: ink_def entity_def js_def special_defs isWhiteSpace_def)

lemma ink_append: "ink (a @ b) = ink a + ink b"
  by (simp add: ink_def)

lemma ink_escape_le: "ink s \<le> ink (escapeEntities s)"
proof (induction s)
  case Nil
  then show ?case by (simp add: escapeEntities_def)
next
  case (Cons c s)
  have "ink (c # s) = ink [c] + ink s" using ink_append [of "[c]" s] by simp
  moreover have "ink (escapeEntities (c # s)) = ink (entity c) + ink (escapeEntities s)"
    by (simp add: escapeEntities_def ink_append)
  ultimately show ?case using Cons ink_entity [of c] by simp
qed

lemma ink_escape_AMP: "AMP \<in> set s \<Longrightarrow> ink s < ink (escapeEntities s)"
proof (induction s)
  case Nil
  then show ?case by simp
next
  case (Cons c s)
  have l: "ink (c # s) = ink [c] + ink s" using ink_append [of "[c]" s] by simp
  have r: "ink (escapeEntities (c # s)) = ink (entity c) + ink (escapeEntities s)"
    by (simp add: escapeEntities_def ink_append)
  show ?case
  proof (cases "c = AMP")
    case True
    then show ?thesis using l r ink_entity_AMP ink_escape_le [of s] by simp
  next
    case False
    then have "AMP \<in> set s" using Cons.prems by simp
    then show ?thesis using l r Cons.IH ink_entity [of c] by simp
  qed
qed

lemma sanitizeInput_angle_free: "LT \<notin> set (sanitizeInput x) \<and> GT \<notin> set (sanitizeInput x)"
  using escapeEntities_no_angle [of "stripTags x"] set_trim_subset [of "escapeEntities (stripTags x)"]
  by (auto simp: sanitizeInput_def)

lemma sanitizeInput_specials:
  "c \<in> set (sanitizeInput x) \<Longrightarrow> special c \<Longrightarrow> c = AMP"
  using escapeEntities_no_angle [of "stripTags x"] escapeEntities_no_quote [of "stripTags x"]
    set_trim_subset [of "escapeEntities (stripTags x)"]
  by (auto simp: sanitizeInput_def special_def)

lemma AMP_in_entity: "AMP \<in> set (entity c) \<longleftrightarrow> special c"
  by (simp add: entity_def special_def js_def special_defs)

lemma AMP_in_escapeEntities: "AMP \<in> set (escapeEntities s) \<longleftrightarrow> (\<exists>c \<in> set s. special c)"
  by (simp add: escapeEntities_def AMP_in_entity)

lemma AMP_in_trim: "AMP \<in> set (trim s) \<longleftrightarrow> AMP \<in> set s"
proof -
  have "AMP \<in> set (filter (\<lambda>c. \<not> isWhiteSpace c) (trim s))
      \<longleftrightarrow> AMP \<in> set (filter (\<lambda>c. \<not> isWhiteSpace c) s)"
    by (simp only: filter_trim)
  moreover have "\<not> isWhiteSpace AMP" by (simp add: isWhiteSpace_def AMP_def)
  ultimately show ?thesis by simp
qed

lemma AMP_in_sanitizeInput:
  "AMP \<in> set (sanitizeInput x) \<longleftrightarrow> (\<exists>c \<in> set (stripTags x). special c)"
  by (simp add: sanitizeInput_def AMP_in_trim AMP_in_escapeEntities)


text \<open>
  Claim C10. For every input string \<open>x\<close>, \<open>sanitizeInput x\<close> contains neither the
  character \<open><\<close> nor the character \<open>>\<close>: complete tags are removed by the first
  replacement and every remaining angle bracket is replaced by its named entity. The lemmas
  \<open>createPoll_stores_sanitized\<close> and \<open>updatePoll_stores_sanitized\<close> below carry this to
  the rows written by \<open>createPoll\<close> and \<open>updatePoll\<close>.
\<close>

theorem sanitizeInput_no_angle_brackets:
  "LT \<notin> set (sanitizeInput x) \<and> GT \<notin> set (sanitizeInput x)"
  by (rule sanitizeInput_angle_free)

text \<open>
  Claim C7, as stated: \<open>sanitizeInput (sanitizeInput x) = sanitizeInput x\<close> for every string.
  The second replacement escapes the ampersand, and every entity it writes starts with an
  ampersand, so a second pass escapes the entities of the first: \<open>&\<close> becomes
  \<open>&amp;\<close> and then \<open>&amp;amp;\<close>.
\<close>

theorem sanitizeInput_not_idempotent:
  "sanitizeInput (sanitizeInput (js ''&'')) \<noteq> sanitizeInput (js ''&'')"
  by (simp add: sanitizeInput_def trim_def escapeEntities_def entity_def js_def
      LT_def GT_def QUOT_def APOS_def AMP_def isWhiteSpace_def)

text \<open>
  Claim C7, amended: a second pass leaves \<open>sanitizeInput x\<close> unchanged exactly when
  \<open>sanitizeInput x\<close> contains no ampersand, that is, when \<open>x\<close> with its tags removed
  contains none of the five characters \<open>< > " ' &\<close>.
\<close>

theorem sanitizeInput_idempotent_iff:
  "(sanitizeInput (sanitizeInput x) = sanitizeInput x \<longleftrightarrow> AMP \<notin> set (sanitizeInput x))
   \<and> (AMP \<notin> set (sanitizeInput x) \<longleftrightarrow> (\<forall>c \<in> set (stripTags x). \<not> special c))"
proof (intro conjI iffI)
  assume "AMP \<notin> set (sanitizeInput x)"
  then show "\<forall>c \<in> set (stripTags x). \<not> special c" by (simp add: AMP_in_sanitizeInput)
next
  assume "\<forall>c \<in> set (stripTags x). \<not> special c"
  then show "AMP \<notin> set (sanitizeInput x)" by (simp add: AMP_in_sanitizeInput)
next
  assume eq: "sanitizeInput (sanitizeInput x) = sanitizeInput x"
  show "AMP \<notin> set (sanitizeInput x)"
  proof
    assume "AMP \<in> set (sanitizeInput x)"
    let ?t = "sanitizeInput x"
    have "stripTags ?t = ?t" using sanitizeInput_angle_free [of x] by (simp add: stripTags_no_LT)
    then have "sanitizeInput ?t = trim (escapeEntities ?t)" by (simp add: sanitizeInput_def)
    then have "ink (sanitizeInput ?t) = ink (escapeEntities ?t)" by (simp add: ink_trim)
    with \<open>AMP \<in> set ?t\<close> have "ink ?t < ink (sanitizeInput ?t)" using ink_escape_AMP by simp
    with eq show False by simp
  qed
next
  assume no: "AMP \<notin> set (sanitizeInput x)"
  let ?t = "sanitizeInput x"
  have s: "stripTags ?t = ?t" using sanitizeInput_angle_free [of x] by (simp add: stripTags_no_LT)
  have "\<forall>c \<in> set ?t. \<not> special c" using sanitizeInput_specials no by blast
  then have e: "escapeEntities ?t = ?t" by (rule escapeEntities_plain)
  have "trim ?t = ?t" by (simp add: sanitizeInput_def trim_trim)
  with s e show "sanitizeInput ?t = ?t" by (simp add: sanitizeInput_def [of ?t])
qed

theorem sanitizeInput_idempotent_iff_witness:
  "sanitizeInput (sanitizeInput (js '' <b>Best</b> color? '')) = sanitizeInput (js '' <b>Best</b> color? '')"
proof -
  have "AMP \<notin> set (sanitizeInput (js '' <b>Best</b> color? ''))"
    by (simp add: sanitizeInput_def trim_def escapeEntities_def entity_def js_def
        LT_def GT_def QUOT_def APOS_def AMP_def isWhiteSpace_def)
  then show ?thesis
    using sanitizeInput_idempotent_iff [of "js '' <b>Best</b> color? ''"] by simp
qed

section \<open>The store's statements\<close>

lemma data_of_single: "data_of (single rows) \<noteq> None \<longleftrightarrow> length rows = 1"
  by (cases rows rule: single.cases) auto

lemma selectPollSingle_eq:
  "selectPollSingle pid s =
     ((case nextFault s 0 of Some e \<Rightarrow> Failure e | None \<Rightarrow> single (pollRows pid s)),
      s\<lparr>statements := statements s @ [(Select, Polls)]\<rparr>)"
  by (simp add: selectPollSingle_def send_def nextFault_def pollRows_def split: option.splits)

lemma selectAdminRoleSingle_eq:
  "selectAdminRoleSingle uid s =
     ((case nextFault s 0 of Some e \<Rightarrow> Failure e | None \<Rightarrow> single (adminRows uid s)),
      s\<lparr>statements := statements s @ [(Select, UserRoles)]\<rparr>)"
  by (simp add: selectAdminRoleSingle_def send_def nextFault_def adminRows_def split: option.splits)

lemma selectVoteSingle_eq:
  "selectVoteSingle pid uid s =
     ((case nextFault s 0 of Some e \<Rightarrow> Failure e | None \<Rightarrow> single (voteRows pid uid s)),
      s\<lparr>statements := statements s @ [(Select, Votes)]\<rparr>)"
  by (simp add: selectVoteSingle_def send_def nextFault_def voteRows_def split: option.splits)

lemma selectVotesSince_eq:
  "selectVotesSince uid since s =
     ((case nextFault s 0 of Some e \<Rightarrow> Failure e | None \<Rightarrow> Success (recentRows uid since s)),
      s\<lparr>statements := statements s @ [(Select, Votes)]\<rparr>)"
  by (simp add: selectVotesSince_def send_def nextFault_def recentRows_def split: option.splits)

lemma deletePollWhere_eq:
  "deletePollWhere pid s =
     (case nextFault s 0 of
        Some e \<Rightarrow> (Failure e, s\<lparr>statements := statements s @ [(Delete, Polls)]\<rparr>)
      | None \<Rightarrow> (Success (),
                 s\<lparr>statements := statements s @ [(Delete, Polls)],
                    polls := filter (\<lambda>p. p_id p \<noteq> pid) (polls s),
                    votes := filter (\<lambda>v. v_poll_id v \<noteq> pid) (votes s)\<rparr>))"
  by (simp add: deletePollWhere_def send_def nextFault_def split: option.splits)

lemma nextFault_after [simp]:
  "nextFault (s\<lparr>statements := statements s @ qs\<rparr>) k = nextFault s (length qs + k)"
  by (simp add: nextFault_def add.assoc)

lemma pollRows_after [simp]: "pollRows pid (s\<lparr>statements := x\<rparr>) = pollRows pid s"
  by (simp add: pollRows_def)

lemma adminRows_after [simp]: "adminRows uid (s\<lparr>statements := x\<rparr>) = adminRows uid s"
  by (simp add: adminRows_def)

lemma voteRows_after [simp]: "voteRows pid uid (s\<lparr>statements := x\<rparr>) = voteRows pid uid s"
  by (simp add: voteRows_def)

lemma recentRows_after [simp]: "recentRows uid t (s\<lparr>statements := x\<rparr>) = recentRows uid t s"
  by (simp add: recentRows_def)

lemma updatePollWhere_eq:
  "updatePollWhere pid uid q opts s =
     (case nextFault s 0 of
        Some e \<Rightarrow> (Failure e, s\<lparr>statements := statements s @ [(Update, Polls)]\<rparr>)
      | None \<Rightarrow> (Success (),
                 s\<lparr>statements := statements s @ [(Update, Polls)],
                    polls := map (\<lambda>p. if p_id p = pid \<and> p_user_id p = uid
                                       then p\<lparr>p_question := q, p_options := opts\<rparr> else p) (polls s)\<rparr>))"
  by (simp add: updatePollWhere_def send_def nextFault_def split: option.splits)

lemma insertPoll_eq:
  "insertPoll row s =
     (case nextFault s 0 of
        Some e \<Rightarrow> (Failure e, s\<lparr>statements := statements s @ [(Insert, Polls)]\<rparr>)
      | None \<Rightarrow>
          if p_id row \<in> p_id ` set (polls s)
          then (Failure duplicate_poll, s\<lparr>statements := statements s @ [(Insert, Polls)]\<rparr>)
          else (Success (), s\<lparr>statements := statements s @ [(Insert, Polls)],
                              polls := polls s @ [row]\<rparr>))"
  by (simp add: insertPoll_def send_def nextFault_def split: option.splits)

lemma insertVote_eq:
  "insertVote row s =
     (case nextFault s 0 of
        Some e \<Rightarrow> (Failure e, s\<lparr>statements := statements s @ [(Insert, Votes)]\<rparr>)
      | None \<Rightarrow>
          if \<not> (\<exists>p \<in> set (polls s). p_id p = v_poll_id row
                    \<and> v_option_index row < int (length (p_options p)))
          then (Failure bad_option_index, s\<lparr>statements := statements s @ [(Insert, Votes)]\<rparr>)
          else if v_option_index row < 0
          then (Failure negative_option_index, s\<lparr>statements := statements s @ [(Insert, Votes)]\<rparr>)
          else if v_user_id row \<noteq> None
                  \<and> (\<exists>v \<in> set (votes s). v_poll_id v = v_poll_id row \<and> v_user_id v = v_user_id row)
          then (Failure duplicate_vote, s\<lparr>statements := statements s @ [(Insert, Votes)]\<rparr>)
          else (Success (), s\<lparr>statements := statements s @ [(Insert, Votes)],
                              votes := votes s @ [row]\<rparr>))"
  by (cases "faults s (length (statements s))")
     (simp_all add: insertVote_def send_def nextFault_def split del: if_split cong: if_cong)

lemma issued_append [simp]: "issued s (s\<lparr>statements := statements s @ qs\<rparr>) = qs"
  by (simp add: issued_def)

lemma issued_append_more [simp]:
  "issued s (s\<lparr>statements := statements s @ qs, polls := ps, votes := vs\<rparr>) = qs"
  by (simp add: issued_def)

section \<open>The admin-role lookup\<close>







section \<open>Deleting a poll\<close>

lemma deletePoll_found:
  assumes "userError auth = None" and "user auth = Some uid"
    and "pollRows ident s = [poll]" and "nextFault s 0 = None"
  shows "deletePoll auth ident s =
     (if p_user_id poll \<noteq> uid \<and> (nextFault s 1 \<noteq> None \<or> length (adminRows uid s) \<noteq> 1)
      then (Some (js ''You can only delete your own polls''),
            s\<lparr>statements := statements s @ [(Select, Polls), (Select, UserRoles)]\<rparr>)
      else let k = (if p_user_id poll \<noteq> uid then 2 else 1);
               sent = (Select, Polls) # (if p_user_id poll \<noteq> uid then [(Select, UserRoles)] else [])
                        @ [(Delete, Polls)]
           in (case nextFault s k of
                 Some e \<Rightarrow> (Some (js ''Failed to delete poll''), s\<lparr>statements := statements s @ sent\<rparr>)
               | None \<Rightarrow> (None, s\<lparr>statements := statements s @ sent,
                                   polls := filter (\<lambda>p. p_id p \<noteq> ident) (polls s),
                                   votes := filter (\<lambda>v. v_poll_id v \<noteq> ident) (votes s)\<rparr>)))"
proof (cases "p_user_id poll = uid")
  case True
  with assms show ?thesis
    by (simp add: deletePoll_def selectPollSingle_eq deletePollWhere_eq Let_def split: option.splits)
next
  case False
  show ?thesis
  proof (cases "nextFault s 1")
    case None
    with False assms show ?thesis
      by (cases "adminRows uid s" rule: single.cases)
         (simp_all add: deletePoll_def selectPollSingle_eq selectAdminRoleSingle_eq
            deletePollWhere_eq numeral_2_eq_2 Let_def split: option.splits)
  next
    case (Some e)
    with False assms show ?thesis
      by (simp add: deletePoll_def selectPollSingle_eq selectAdminRoleSingle_eq
            deletePollWhere_eq Let_def)
  qed
qed

lemma deletePoll_lookup_failed:
  assumes "userError auth = None" and "user auth = Some uid" and "nextFault s 0 = Some e"
  shows "deletePoll auth ident s =
           (Some (js ''Poll not found''), s\<lparr>statements := statements s @ [(Select, Polls)]\<rparr>)"
  using assms by (simp add: deletePoll_def selectPollSingle_eq)


text \<open>
  Claim C1. Let an authenticated principal call \<open>deletePoll\<close> on an existing poll.
  \<^item> A principal who neither owns the poll nor holds the admin role gets an error and the
    poll (and every vote) is still there, whichever statements the store fails; when the
    poll lookup answers, the error is the authorization message
    \<open>You can only delete your own polls\<close>.
  \<^item> The owner's call deletes the poll, and sends no statement to \<open>user_roles\<close>.
  \<^item> An admin's call on another principal's poll deletes the poll.
  \<^item> The poll is read first; \<open>user_roles\<close> is read next, and only for a non-owner.
  The two successful cases assume that the store answers the statements sent.
\<close>

theorem deletePoll_owner_or_admin:
  assumes "userError auth = None" and "user auth = Some uid" and "pollRows ident s = [poll]"
  shows "(p_user_id poll \<noteq> uid \<and> adminRows uid s = [] \<longrightarrow>
            fst (deletePoll auth ident s) \<noteq> None
            \<and> polls (snd (deletePoll auth ident s)) = polls s
            \<and> votes (snd (deletePoll auth ident s)) = votes s
            \<and> (nextFault s 0 = None \<longrightarrow>
                 fst (deletePoll auth ident s) = Some (js ''You can only delete your own polls'')))
       \<and> (p_user_id poll = uid \<and> nextFault s 0 = None \<and> nextFault s 1 = None \<longrightarrow>
            fst (deletePoll auth ident s) = None
            \<and> pollRows ident (snd (deletePoll auth ident s)) = []
            \<and> issued s (snd (deletePoll auth ident s)) = [(Select, Polls), (Delete, Polls)])
       \<and> (p_user_id poll \<noteq> uid \<and> length (adminRows uid s) = 1
            \<and> nextFault s 0 = None \<and> nextFault s 1 = None \<and> nextFault s 2 = None \<longrightarrow>
            fst (deletePoll auth ident s) = None
            \<and> pollRows ident (snd (deletePoll auth ident s)) = []
            \<and> issued s (snd (deletePoll auth ident s))
                = [(Select, Polls), (Select, UserRoles), (Delete, Polls)])
       \<and> (p_user_id poll = uid \<longrightarrow>
            (Select, UserRoles) \<notin> set (issued s (snd (deletePoll auth ident s))))"
proof (cases "nextFault s 0")
  case (Some e)
  then show ?thesis
    using deletePoll_lookup_failed [OF assms(1,2) Some, of ident] by simp
next
  case None
  note found = deletePoll_found [OF assms None]
  show ?thesis
  proof (cases "p_user_id poll = uid")
    case True
    then show ?thesis
      using found None by (simp add: Let_def pollRows_def split: option.splits)
  next
    case False
    then show ?thesis
      using found None
      by (simp add: Let_def pollRows_def numeral_2_eq_2 split: option.splits)
  qed
qed

theorem deletePoll_owner_or_admin_witness:
  "fst (deletePoll (authOf bob) pollA store0) = Some (js ''You can only delete your own polls'')
   \<and> polls (snd (deletePoll (authOf bob) pollA store0)) = [bestColor]
   \<and> fst (deletePoll (authOf alice) pollA store0) = None
   \<and> pollRows pollA (snd (deletePoll (authOf alice) pollA store0)) = []
   \<and> fst (deletePoll (authOf carol) pollA store0) = None
   \<and> pollRows pollA (snd (deletePoll (authOf carol) pollA store0)) = []"
proof -
  have rows: "pollRows pollA store0 = [bestColor]"
    by (simp add: pollRows_def store0_def bestColor_def)
  have nf: "nextFault store0 k = None" for k
    by (simp add: nextFault_def store0_def)
  have owner: "p_user_id bestColor = alice" "p_user_id bestColor \<noteq> bob" "p_user_id bestColor \<noteq> carol"
    by (simp_all add: bestColor_def alice_def bob_def carol_def js_def)
  have roles: "adminRows bob store0 = []" "length (adminRows carol store0) = 1"
    by (simp_all add: adminRows_def store0_def bob_def carol_def js_def)
  have ps: "polls store0 = [bestColor]"
    by (simp add: store0_def)
  have b: "fst (deletePoll (authOf bob) pollA store0) = Some (js ''You can only delete your own polls'')
      \<and> polls (snd (deletePoll (authOf bob) pollA store0)) = [bestColor]"
    using deletePoll_owner_or_admin [of "authOf bob" bob pollA store0 bestColor] rows nf owner roles ps
    by (simp add: authOf_def)
  have a: "fst (deletePoll (authOf alice) pollA store0) = None
      \<and> pollRows pollA (snd (deletePoll (authOf alice) pollA store0)) = []"
    using deletePoll_owner_or_admin [of "authOf alice" alice pollA store0 bestColor] rows nf owner
    by (simp add: authOf_def)
  have c: "fst (deletePoll (authOf carol) pollA store0) = None
      \<and> pollRows pollA (snd (deletePoll (authOf carol) pollA store0)) = []"
    using deletePoll_owner_or_admin [of "authOf carol" carol pollA store0 bestColor] rows nf owner roles
    by (simp add: authOf_def)
  show ?thesis using a b c by simp
qed

section \<open>Updating a poll\<close>

lemma valid_newForm:
  "validatePollInput asciiLowerCase (fd_question newForm) (rawOptionsOf newForm) = None"
  by (simp add: newForm_def validatePollInput_def js_def trim_def isWhiteSpace_def
      MAX_QUESTION_LENGTH_def MAX_OPTION_LENGTH_def MAX_OPTIONS_def MIN_OPTIONS_def
      suspicious_def foldCase_def asciiLowerCase_def rawOptionsOf_def)

lemma updatePoll_valid:
  assumes "10 \<le> length pollId"
    and "validatePollInput toLowerCase (fd_question formData) (rawOptionsOf formData) = None"
    and "userError auth = None" and "user auth = Some uid"
  shows "updatePoll toLowerCase auth pollId formData s =
     (case nextFault s 0 of
        Some e \<Rightarrow> (Some e, s\<lparr>statements := statements s @ [(Update, Polls)]\<rparr>)
      | None \<Rightarrow>
          (None,
           s\<lparr>statements := statements s @ [(Update, Polls)],
              polls := map (\<lambda>p. if p_id p = pollId \<and> p_user_id p = uid
                                 then p\<lparr>p_question := sanitizeEntry (fd_question formData),
                                        p_options := map sanitizeInput (rawOptionsOf formData)\<rparr>
                                 else p) (polls s)\<rparr>))"
proof -
  have "pollId \<noteq> []" using assms(1) by auto
  then show ?thesis
    using assms
    by (simp add: updatePoll_def updatePollWhere_eq rawOptionsOf_def Let_def split: option.splits)
qed

text \<open>
  Claim C2, as stated: the update is permitted if and only if the principal owns the poll or
  holds the admin role, and a principal with neither is told so. \<open>updatePoll\<close> never reads
  \<open>user_roles\<close>: its one statement updates the rows whose \<open>id\<close> is the poll's and whose
  \<open>user_id\<close> is the caller's. Carol holds the admin role and does not own Alice's poll; her
  well-formed update returns no error and changes nothing.
\<close>

theorem updatePoll_admin_cannot_edit:
  "length (adminRows carol store0) = 1
   \<and> p_user_id bestColor \<noteq> carol
   \<and> updatePoll asciiLowerCase (authOf carol) pollA newForm store0
       = (None, store0\<lparr>statements := [(Update, Polls)]\<rparr>)"
proof -
  note v = valid_newForm
  have l: "10 \<le> length pollA" by (simp add: pollA_def js_def)
  have nf: "nextFault store0 0 = None" by (simp add: nextFault_def store0_def)
  have o: "p_user_id bestColor \<noteq> carol" by (simp add: bestColor_def alice_def carol_def js_def)
  have r: "length (adminRows carol store0) = 1" by (simp add: adminRows_def store0_def)
  have "updatePoll asciiLowerCase (authOf carol) pollA newForm store0
       = (None, store0\<lparr>statements := [(Update, Polls)]\<rparr>)"
    using updatePoll_valid [OF l v, of "authOf carol" carol store0] nf o
    by (simp add: authOf_def store0_def)
  with o r show ?thesis by simp
qed

text \<open>
  Claim C2, amended. For an authenticated principal and a well-formed request that the store
  answers, \<open>updatePoll\<close> sends the single statement \<open>(Update, Polls)\<close>, so the admin role
  is not consulted; the owner's call returns no error and replaces the question and the
  options of the poll by their sanitized values; the call of any other principal, admin or
  not, leaves every poll as it was.
\<close>

theorem updatePoll_owner_only:
  assumes "10 \<le> length pollId"
    and "validatePollInput toLowerCase (fd_question formData) (rawOptionsOf formData) = None"
    and "userError auth = None" and "user auth = Some uid"
    and "nextFault s 0 = None"
  shows "issued s (snd (updatePoll toLowerCase auth pollId formData s)) = [(Update, Polls)]
       \<and> (\<forall>p \<in> set (polls s). p_id p = pollId \<and> p_user_id p = uid \<longrightarrow>
             fst (updatePoll toLowerCase auth pollId formData s) = None
             \<and> p\<lparr>p_question := sanitizeEntry (fd_question formData),
                   p_options := map sanitizeInput (rawOptionsOf formData)\<rparr>
                 \<in> set (polls (snd (updatePoll toLowerCase auth pollId formData s))))
       \<and> ((\<forall>p \<in> set (polls s). p_id p = pollId \<longrightarrow> p_user_id p \<noteq> uid) \<longrightarrow>
             polls (snd (updatePoll toLowerCase auth pollId formData s)) = polls s)"
proof -
  note eq = updatePoll_valid [OF assms(1-4), of s]
  have unchanged: "map (\<lambda>p. if p_id p = pollId \<and> p_user_id p = uid then f p else p) (polls s) = polls s"
    if "\<forall>p \<in> set (polls s). p_id p = pollId \<longrightarrow> p_user_id p \<noteq> uid" for f
    using that by (intro map_idI) auto
  show ?thesis
    using eq assms(5) unchanged
    by (auto simp: issued_def image_iff intro!: bexI)
qed

theorem updatePoll_owner_only_witness:
  "polls (snd (updatePoll asciiLowerCase (authOf bob) pollA newForm store0)) = polls store0
   \<and> bestColor\<lparr>p_question := js ''Best colour?'', p_options := [js ''Red'', js ''Green'']\<rparr>
       \<in> set (polls (snd (updatePoll asciiLowerCase (authOf alice) pollA newForm store0)))"
proof -
  note v = valid_newForm
  have l: "10 \<le> length pollA" by (simp add: pollA_def js_def)
  have nf: "nextFault store0 0 = None" by (simp add: nextFault_def store0_def)
  have ps: "polls store0 = [bestColor]" "p_id bestColor = pollA" "p_user_id bestColor = alice"
    by (simp_all add: store0_def bestColor_def)
  have o: "alice \<noteq> bob" by (simp add: alice_def bob_def js_def)
  have san: "sanitizeEntry (fd_question newForm) = js ''Best colour?''"
    "map sanitizeInput (rawOptionsOf newForm) = [js ''Red'', js ''Green'']"
    by (simp_all add: newForm_def rawOptionsOf_def sanitizeEntry_def sanitizeInput_def trim_def
        escapeEntities_def entity_def js_def LT_def GT_def QUOT_def APOS_def AMP_def isWhiteSpace_def)
  have b: "polls (snd (updatePoll asciiLowerCase (authOf bob) pollA newForm store0)) = polls store0"
    using updatePoll_owner_only [OF l v _ _ nf, of "authOf bob" bob] ps o
    by (simp add: authOf_def)
  have a: "bestColor\<lparr>p_question := js ''Best colour?'', p_options := [js ''Red'', js ''Green'']\<rparr>
       \<in> set (polls (snd (updatePoll asciiLowerCase (authOf alice) pollA newForm store0)))"
    using updatePoll_owner_only [OF l v _ _ nf, of "authOf alice" alice] ps san
    by (simp add: authOf_def)
  show ?thesis using a b by simp
qed

section \<open>Creating a poll\<close>

lemma createPoll_valid:
  assumes "validatePollInput toLowerCase (fd_question formData) (rawOptionsOf formData) = None"
    and "userError auth = None" and "user auth = Some uid"
  shows "createPoll toLowerCase auth newId formData s =
     (case nextFault s 0 of
        Some e \<Rightarrow> (Some e, s\<lparr>statements := statements s @ [(Insert, Polls)]\<rparr>)
      | None \<Rightarrow>
          if newId \<in> p_id ` set (polls s)
          then (Some duplicate_poll, s\<lparr>statements := statements s @ [(Insert, Polls)]\<rparr>)
          else (None,
                s\<lparr>statements := statements s @ [(Insert, Polls)],
                   polls := polls s @ [\<lparr>p_id = newId, p_user_id = uid,
                                        p_question = sanitizeEntry (fd_question formData),
                                        p_options = map sanitizeInput (rawOptionsOf formData)\<rparr>]\<rparr>))"
  using assms
  by (simp add: createPoll_def insertPoll_eq rawOptionsOf_def Let_def split: option.splits)

lemma sanitizeEntry_angle_free: "LT \<notin> set (sanitizeEntry v) \<and> GT \<notin> set (sanitizeEntry v)"
  using sanitizeInput_angle_free by (cases v) (simp_all add: sanitizeEntry_def)

lemma createPoll_stores_sanitized:
  assumes "createPoll toLowerCase auth newId formData s = (None, s')"
  shows "\<exists>row. polls s' = polls s @ [row]
            \<and> LT \<notin> set (p_question row) \<and> GT \<notin> set (p_question row)
            \<and> (\<forall>option \<in> set (p_options row). LT \<notin> set option \<and> GT \<notin> set option)"
proof -
  from assms obtain uid where
    "s' = s\<lparr>statements := statements s @ [(Insert, Polls)],
            polls := polls s @ [\<lparr>p_id = newId, p_user_id = uid,
                                 p_question = sanitizeEntry (fd_question formData),
                                 p_options = map sanitizeInput (rawOptionsOf formData)\<rparr>]\<rparr>"
    by (auto simp: createPoll_def insertPoll_eq rawOptionsOf_def Let_def
        split: option.splits if_splits)
  then show ?thesis
    using sanitizeEntry_angle_free [of "fd_question formData"] sanitizeInput_angle_free
    by auto
qed

lemma updatePoll_stores_sanitized:
  assumes "p \<in> set (polls (snd (updatePoll toLowerCase auth pollId formData s)))"
  shows "p \<in> set (polls s)
       \<or> (LT \<notin> set (p_question p) \<and> GT \<notin> set (p_question p)
          \<and> (\<forall>option \<in> set (p_options p). LT \<notin> set option \<and> GT \<notin> set option))"
  using assms sanitizeEntry_angle_free [of "fd_question formData"] sanitizeInput_angle_free
  by (auto simp: updatePoll_def updatePollWhere_eq Let_def split: option.splits if_splits)

text \<open>
  Claim C9. Every operation is to return an error string that is safe to show: storage
  failures are to be replaced by a generic message. \<open>deletePoll\<close> and \<open>submitVote\<close> do so.
  \<open>createPoll\<close>, \<open>updatePoll\<close> and \<open>getPollById\<close> return the store's own message: here
  Alice submits a well-formed poll, or a well-formed update of her poll, or reads her poll,
  while the store fails with an internal message, and that message is what she receives.
\<close>

theorem createPoll_returns_raw_storage_error:
  "fst (createPoll asciiLowerCase (authOf alice) pollB newForm
          (store0\<lparr>faults := (\<lambda>n. Some internalMessage)\<rparr>)) = Some internalMessage
   \<and> fst (updatePoll asciiLowerCase (authOf alice) pollA newForm
          (store0\<lparr>faults := (\<lambda>n. Some internalMessage)\<rparr>)) = Some internalMessage
   \<and> fst (getPollById pollA (store0\<lparr>faults := (\<lambda>n. Some internalMessage)\<rparr>))
       = (None, Some internalMessage)"
proof -
  let ?s = "store0\<lparr>faults := (\<lambda>n. Some internalMessage)\<rparr>"
  have nf: "nextFault ?s 0 = Some internalMessage"
    by (simp add: nextFault_def)
  have l: "10 \<le> length pollA" by (simp add: pollA_def js_def)
  have c: "fst (createPoll asciiLowerCase (authOf alice) pollB newForm ?s) = Some internalMessage"
    using createPoll_valid [OF valid_newForm, of "authOf alice" alice pollB ?s] nf
    by (simp add: authOf_def)
  have u: "fst (updatePoll asciiLowerCase (authOf alice) pollA newForm ?s) = Some internalMessage"
    using updatePoll_valid [OF l valid_newForm, of "authOf alice" alice ?s] nf
    by (simp add: authOf_def)
  have g: "fst (getPollById pollA ?s) = (None, Some internalMessage)"
    using nf by (simp add: getPollById_def selectPollSingle_eq)
  show ?thesis using c u g by simp
qed

section \<open>Submitting a vote\<close>

lemma inRange_iff:
  "inRange v n \<longleftrightarrow> isNumber v \<and> \<not> lessThanZero v \<and> isInteger v \<and> \<not> atLeastLength v n"
proof (cases v)
  case (JNumber q)
  show ?thesis
  proof
    assume "inRange v n"
    then obtain k where "k < n" "q = of_nat k" using JNumber by (auto simp: inRange_def)
    then show "isNumber v \<and> \<not> lessThanZero v \<and> isInteger v \<and> \<not> atLeastLength v n"
      using JNumber by simp
  next
    assume a: "isNumber v \<and> \<not> lessThanZero v \<and> isInteger v \<and> \<not> atLeastLength v n"
    then have q: "0 \<le> q" "of_int \<lfloor>q\<rfloor> = q" "q < of_nat n" using JNumber by auto
    define k where "k = nat \<lfloor>q\<rfloor>"
    have "0 \<le> \<lfloor>q\<rfloor>" using q(1) by simp
    then have "of_nat k = (of_int \<lfloor>q\<rfloor> :: rat)" by (simp add: k_def)
    then have kq: "of_nat k = q" using q(2) by simp
    then have "k < n" using q(3) by (metis of_nat_less_iff)
    with kq show "inRange v n" using JNumber by (auto simp: inRange_def)
  qed
qed (auto simp: inRange_def)

lemma find_gateOrder:
  "find P gateOrder =
     (if P PollIdFormat then Some PollIdFormat
      else if P IndexWellFormed then Some IndexWellFormed
      else if P PollLookup then Some PollLookup
      else if P IndexBounds then Some IndexBounds
      else if P SignedIn then Some SignedIn
      else if P NoEarlierVote then Some NoEarlierVote
      else if P VoteCeiling then Some VoteCeiling
      else if P InsertAccepted then Some InsertAccepted
      else None)"
  by (simp add: gateOrder_def)

lemma toInteger_inRange: "inRange v n \<Longrightarrow> toInteger v = int (nat (toInteger v)) \<and> nat (toInteger v) < n"
  by (auto simp: inRange_def)

lemma voteRows_nonempty:
  "voteRows pid uid s \<noteq> [] \<longleftrightarrow> (\<exists>v \<in> set (votes s). v_poll_id v = pid \<and> v_user_id v = Some uid)"
  by (auto simp: voteRows_def filter_empty_conv)

lemma pollRows_single: "pollRows pid s = [poll] \<Longrightarrow> poll \<in> set (polls s) \<and> p_id poll = pid"
proof -
  assume "pollRows pid s = [poll]"
  then have "poll \<in> set (filter (\<lambda>p. p_id p = pid) (polls s))" by (simp add: pollRows_def)
  then show ?thesis by simp
qed

lemma submitVote_gates:
  "submitVote auth now insertedAt pollId optionIndex s =
     (case find (gateFails auth now pollId optionIndex s) gateOrder of
        Some PollIdFormat \<Rightarrow> (Some (gateError PollIdFormat), s)
      | Some IndexWellFormed \<Rightarrow> (Some (gateError IndexWellFormed), s)
      | Some PollLookup \<Rightarrow>
          (Some (gateError PollLookup), s\<lparr>statements := statements s @ [(Select, Polls)]\<rparr>)
      | Some IndexBounds \<Rightarrow>
          (Some (gateError IndexBounds), s\<lparr>statements := statements s @ [(Select, Polls)]\<rparr>)
      | Some SignedIn \<Rightarrow>
          (Some (gateError SignedIn), s\<lparr>statements := statements s @ [(Select, Polls)]\<rparr>)
      | Some NoEarlierVote \<Rightarrow>
          (Some (gateError NoEarlierVote),
           s\<lparr>statements := statements s @ [(Select, Polls), (Select, Votes)]\<rparr>)
      | Some VoteCeiling \<Rightarrow>
          (Some (gateError VoteCeiling),
           s\<lparr>statements := statements s @ [(Select, Polls), (Select, Votes), (Select, Votes)]\<rparr>)
      | Some InsertAccepted \<Rightarrow>
          (Some (gateError InsertAccepted),
           s\<lparr>statements := statements s
                  @ [(Select, Polls), (Select, Votes), (Select, Votes), (Insert, Votes)]\<rparr>)
      | None \<Rightarrow>
          (None,
           s\<lparr>statements := statements s
                  @ [(Select, Polls), (Select, Votes), (Select, Votes), (Insert, Votes)],
              votes := votes s @ [\<lparr>v_poll_id = pollId, v_user_id = user auth,
                                    v_option_index = toInteger optionIndex,
                                    v_created_at = insertedAt\<rparr>]\<rparr>))"
proof (cases "length pollId < 10")
  case True
  then show ?thesis by (simp add: submitVote_def find_gateOrder)
next
  case long: False
  then have ne: "pollId \<noteq> []" by auto
  show ?thesis
  proof (cases "\<not> isNumber optionIndex \<or> lessThanZero optionIndex \<or> \<not> isInteger optionIndex")
    case True
    with long ne show ?thesis by (simp add: submitVote_def find_gateOrder)
  next
    case wf: False
    show ?thesis
    proof (cases "nextFault s 0 \<noteq> None \<or> length (pollRows pollId s) \<noteq> 1")
      case True
      then have "fst (selectPollSingle pollId s) = Failure (case nextFault s 0 of Some e \<Rightarrow> e | None \<Rightarrow> not_single)"
        by (cases "pollRows pollId s" rule: single.cases)
           (auto simp: selectPollSingle_eq split: option.splits)
      then have "selectPollSingle pollId s =
          (Failure (case nextFault s 0 of Some e \<Rightarrow> e | None \<Rightarrow> not_single),
           s\<lparr>statements := statements s @ [(Select, Polls)]\<rparr>)"
        by (simp add: selectPollSingle_eq)
      with True long ne wf show ?thesis
        by (simp add: submitVote_def find_gateOrder)
    next
      case found: False
      then obtain poll where rows: "pollRows pollId s = [poll]" and nf0: "nextFault s 0 = None"
        by (cases "pollRows pollId s" rule: single.cases) auto
      have sel: "selectPollSingle pollId s =
          (Success poll, s\<lparr>statements := statements s @ [(Select, Polls)]\<rparr>)"
        by (simp add: selectPollSingle_eq rows nf0)
      show ?thesis
      proof (cases "atLeastLength optionIndex (length (p_options poll))")
        case True
        with long ne wf sel rows nf0 show ?thesis
          by (simp add: submitVote_def find_gateOrder)
      next
        case inb: False
        show ?thesis
        proof (cases "case user auth of None \<Rightarrow> True | Some uid \<Rightarrow> uid = []")
          case True
          with long ne wf sel rows nf0 inb show ?thesis
            by (auto simp: submitVote_def find_gateOrder split: option.splits)
        next
          case False
          then obtain uid where uid: "user auth = Some uid" "uid \<noteq> []"
            by (auto split: option.splits)
          define R where "R = (case nextFault s 1 of Some e \<Rightarrow> Failure e
                              | None \<Rightarrow> single (voteRows pollId uid s))"
          define Q where "Q = (case nextFault s 2 of Some e \<Rightarrow> Failure e
                              | None \<Rightarrow> Success (recentRows uid (now - 60000) s))"
          have vsel: "selectVoteSingle pollId uid (s\<lparr>statements := statements s @ [(Select, Polls)]\<rparr>)
              = (R, s\<lparr>statements := statements s @ [(Select, Polls), (Select, Votes)]\<rparr>)"
            by (simp add: selectVoteSingle_eq R_def split: option.splits)
          have rsel: "selectVotesSince uid (now - 60000)
                (s\<lparr>statements := statements s @ [(Select, Polls), (Select, Votes)]\<rparr>)
              = (Q, s\<lparr>statements := statements s @ [(Select, Polls), (Select, Votes), (Select, Votes)]\<rparr>)"
            by (simp add: selectVotesSince_eq Q_def numeral_2_eq_2 split: option.splits)
          have dat: "data_of R \<noteq> None
                \<longleftrightarrow> nextFault s 1 = None \<and> length (voteRows pollId uid s) = 1"
            using data_of_single [of "voteRows pollId uid s"]
            by (cases "nextFault s 1") (simp_all add: R_def)
          have rat: "(case data_of Q of Some rows \<Rightarrow> 5 \<le> length rows | None \<Rightarrow> False)
                \<longleftrightarrow> nextFault s 2 = None \<and> 5 \<le> length (recentRows uid (now - 60000) s)"
            by (cases "nextFault s 2") (simp_all add: Q_def)
          show ?thesis
          proof (cases "nextFault s 1 = None \<and> length (voteRows pollId uid s) = 1")
            case True
            then have "data_of R \<noteq> None" using dat by blast
            then have "submitVote auth now insertedAt pollId optionIndex s =
                (Some (js ''You have already voted on this poll''),
                 s\<lparr>statements := statements s @ [(Select, Polls), (Select, Votes)]\<rparr>)"
              using long ne wf sel inb uid vsel by (simp add: submitVote_def)
            then show ?thesis
              using long wf rows nf0 inb uid True by (simp add: find_gateOrder)
          next
            case novote: False
            then have noR: "data_of R = None" using dat by blast
            show ?thesis
            proof (cases "nextFault s 2 = None \<and> 5 \<le> length (recentRows uid (now - 60000) s)")
              case True
              then have "case data_of Q of Some rows \<Rightarrow> 5 \<le> length rows | None \<Rightarrow> False"
                using rat by blast
              then have "submitVote auth now insertedAt pollId optionIndex s =
                  (Some (js ''Too many votes. Please wait a moment.''),
                   s\<lparr>statements := statements s @ [(Select, Polls), (Select, Votes), (Select, Votes)]\<rparr>)"
                using long ne wf sel inb uid vsel rsel noR by (simp add: submitVote_def)
              then show ?thesis
                using long wf rows nf0 inb uid novote True by (auto simp: find_gateOrder)
            next
              case under: False
              then have rate: "\<not> (case data_of Q of Some rows \<Rightarrow> 5 \<le> length rows | None \<Rightarrow> False)"
                using rat by blast
              have "inRange optionIndex (length (p_options poll))"
                using wf inb by (simp add: inRange_iff)
              then have idx: "toInteger optionIndex = int (nat (toInteger optionIndex))"
                  "nat (toInteger optionIndex) < length (p_options poll)"
                using toInteger_inRange by blast+
              have trig: "\<exists>p \<in> set (polls s). p_id p = pollId
                    \<and> toInteger optionIndex < int (length (p_options p))"
                using pollRows_single [OF rows] idx by (intro bexI [of _ poll]) auto
              have nonneg: "\<not> toInteger optionIndex < 0" using idx(1) by linarith
              have ins: "insertVote \<lparr>v_poll_id = pollId, v_user_id = Some uid,
                             v_option_index = toInteger optionIndex, v_created_at = insertedAt\<rparr>
                           (s\<lparr>statements := statements s @ [(Select, Polls), (Select, Votes), (Select, Votes)]\<rparr>)
                  = (if nextFault s 3 \<noteq> None \<or> voteRows pollId uid s \<noteq> []
                     then (Failure (case nextFault s 3 of Some e \<Rightarrow> e | None \<Rightarrow> duplicate_vote),
                           s\<lparr>statements := statements s
                                @ [(Select, Polls), (Select, Votes), (Select, Votes), (Insert, Votes)]\<rparr>)
                     else (Success (),
                           s\<lparr>statements := statements s
                                @ [(Select, Polls), (Select, Votes), (Select, Votes), (Insert, Votes)],
                              votes := votes s @ [\<lparr>v_poll_id = pollId, v_user_id = Some uid,
                                    v_option_index = toInteger optionIndex,
                                    v_created_at = insertedAt\<rparr>]\<rparr>))"
                using trig nonneg
                by (cases "nextFault s 3")
                   (simp_all add: insertVote_eq voteRows_nonempty numeral_3_eq_3)
              have chain: "submitVote auth now insertedAt pollId optionIndex s =
                  (case insertVote \<lparr>v_poll_id = pollId, v_user_id = Some uid,
                             v_option_index = toInteger optionIndex, v_created_at = insertedAt\<rparr>
                           (s\<lparr>statements := statements s @ [(Select, Polls), (Select, Votes), (Select, Votes)]\<rparr>) of
                     (Failure message, s4) \<Rightarrow> (Some (js ''Failed to submit vote. Please try again.''), s4)
                   | (Success u, s4) \<Rightarrow> (None, s4))"
                using long ne wf sel inb uid vsel rsel noR rate
                by (simp add: submitVote_def)
              show ?thesis
                unfolding chain ins
                using long wf rows nf0 inb uid novote under
                by (auto simp: find_gateOrder)
            qed
          qed
        qed
      qed
    qed
  qed
qed

text \<open>
  Claim C5, as stated: the rejection of an anonymous principal is the first gate. In
  \<open>submitVote\<close> the format of the poll id, the well-formedness of the option index, the poll
  lookup and the bounds of the option index all come before the check that a user is signed
  in: an anonymous call with a negative index is answered \<open>Invalid option selection\<close>, and an
  anonymous call for a poll that does not exist reaches the store and is answered
  \<open>Poll not found\<close>.
\<close>

theorem submitVote_anonymous_not_first:
  "fst (submitVote anonymous 0 0 pollA (JNumber (- 1)) store0) = Some (js ''Invalid option selection'')
   \<and> submitVote anonymous 0 0 pollB (JNumber 0) store0
       = (Some (js ''Poll not found''), store0\<lparr>statements := [(Select, Polls)]\<rparr>)"
  by (simp add: submitVote_def anonymous_def pollA_def pollB_def js_def selectPollSingle_eq
      nextFault_def pollRows_def store0_def bestColor_def)

text \<open>
  Claim C5, amended. \<open>submitVote\<close> applies its gates in the order of \<open>gateOrder\<close>: format of
  the poll id, well-formedness of the option index, poll lookup, bounds of the option index,
  signed-in user, no earlier vote of this user on this poll, fewer than five votes of this
  user in the last 60 seconds, insert. The error returned is that of the first gate that
  fails, and then no table of the store has changed; when no gate fails there is no error
  and exactly the new vote has been appended.
\<close>

theorem submitVote_gate_order:
  "fst (submitVote auth now insertedAt pollId optionIndex s)
     = map_option gateError (find (gateFails auth now pollId optionIndex s) gateOrder)
   \<and> (fst (submitVote auth now insertedAt pollId optionIndex s) \<noteq> None \<longrightarrow>
        polls (snd (submitVote auth now insertedAt pollId optionIndex s)) = polls s
        \<and> votes (snd (submitVote auth now insertedAt pollId optionIndex s)) = votes s
        \<and> user_roles (snd (submitVote auth now insertedAt pollId optionIndex s)) = user_roles s)
   \<and> (fst (submitVote auth now insertedAt pollId optionIndex s) = None \<longrightarrow>
        polls (snd (submitVote auth now insertedAt pollId optionIndex s)) = polls s
        \<and> votes (snd (submitVote auth now insertedAt pollId optionIndex s))
            = votes s @ [\<lparr>v_poll_id = pollId, v_user_id = user auth,
                           v_option_index = toInteger optionIndex, v_created_at = insertedAt\<rparr>])"
proof (cases "find (gateFails auth now pollId optionIndex s) gateOrder")
  case None
  then show ?thesis by (simp add: submitVote_gates)
next
  case (Some g)
  then show ?thesis by (cases g) (simp_all add: submitVote_gates)
qed

theorem submitVote_gate_order_witness:
  "fst (submitVote (authOf bob) 1000 1000 pollA (JNumber 1) store0) = None
   \<and> votes (snd (submitVote (authOf bob) 1000 1000 pollA (JNumber 1) store0))
       = [\<lparr>v_poll_id = pollA, v_user_id = Some bob, v_option_index = 1, v_created_at = 1000\<rparr>]"
proof -
  have "find (gateFails (authOf bob) 1000 pollA (JNumber 1) store0) gateOrder = None"
    by (simp add: find_gateOrder authOf_def pollA_def bob_def js_def nextFault_def pollRows_def
        voteRows_def recentRows_def store0_def bestColor_def)
  then show ?thesis
    using submitVote_gate_order [of "authOf bob" 1000 1000 pollA "JNumber 1" store0]
    by (simp add: authOf_def store0_def)
qed

text \<open>
  Claim C6. Let the poll id be well formed and name an existing poll that the store returns.
  For every option index that is not a whole number from 0 up to, not including, the number
  of options of that poll (a negative or fractional number, NaN, an infinity, a value that is
  not a number, or a number that is too large), \<open>submitVote\<close> returns one of its two
  invalid-option errors and the table of votes is unchanged.
\<close>

theorem submitVote_rejects_out_of_range:
  assumes "10 \<le> length pollId" and "pollRows pollId s = [poll]" and "nextFault s 0 = None"
    and "\<not> inRange optionIndex (length (p_options poll))"
  shows "(fst (submitVote auth now insertedAt pollId optionIndex s) = Some (js ''Invalid option selection'')
          \<or> fst (submitVote auth now insertedAt pollId optionIndex s) = Some (js ''Invalid option selected''))
       \<and> votes (snd (submitVote auth now insertedAt pollId optionIndex s)) = votes s"
proof (cases "\<not> isNumber optionIndex \<or> lessThanZero optionIndex \<or> \<not> isInteger optionIndex")
  case True
  with assms(1) show ?thesis by (auto simp: submitVote_gates find_gateOrder)
next
  case False
  with assms(4) have "atLeastLength optionIndex (length (p_options poll))"
    by (simp add: inRange_iff)
  with False assms(1-3) show ?thesis by (auto simp: submitVote_gates find_gateOrder)
qed

theorem submitVote_rejects_out_of_range_witness:
  "(fst (submitVote (authOf bob) 0 0 pollA (JNumber 2) store0) = Some (js ''Invalid option selection'')
    \<or> fst (submitVote (authOf bob) 0 0 pollA (JNumber 2) store0) = Some (js ''Invalid option selected''))
   \<and> votes (snd (submitVote (authOf bob) 0 0 pollA (JNumber 2) store0)) = votes store0
   \<and> (fst (submitVote (authOf bob) 0 0 pollA JNaN store0) = Some (js ''Invalid option selection'')
    \<or> fst (submitVote (authOf bob) 0 0 pollA JNaN store0) = Some (js ''Invalid option selected''))
   \<and> votes (snd (submitVote (authOf bob) 0 0 pollA JNaN store0)) = votes store0"
proof -
  have l: "10 \<le> length pollA" by (simp add: pollA_def js_def)
  have rows: "pollRows pollA store0 = [bestColor]"
    by (simp add: pollRows_def store0_def bestColor_def)
  have nf: "nextFault store0 0 = None" by (simp add: nextFault_def store0_def)
  have out: "\<not> inRange (JNumber 2) (length (p_options bestColor))"
    "\<not> inRange JNaN (length (p_options bestColor))"
    by (simp_all add: inRange_iff bestColor_def)
  show ?thesis
    using submitVote_rejects_out_of_range [OF l rows nf out(1), of "authOf bob" 0 0]
      submitVote_rejects_out_of_range [OF l rows nf out(2), of "authOf bob" 0 0]
    by simp
qed

section \<open>The rate limiter\<close>

lemma isRateLimited_fresh:
  assumes "m (getRateLimitKey request) = None
           \<or> (\<exists>e. m (getRateLimitKey request) = Some e \<and> now - timestamp e > 300000)"
  shows "isRateLimited request now m
           = (False, m(getRateLimitKey request \<mapsto> \<lparr>count = 1, timestamp = now\<rparr>))"
  using assms by (auto simp: isRateLimited_def Let_def)

lemma isRateLimited_inside:
  assumes "m (getRateLimitKey request) = Some e" and "now - timestamp e \<le> 300000"
  shows "isRateLimited request now m
           = (if 100 \<le> count e then (True, m)
              else (False, m(getRateLimitKey request \<mapsto> e\<lparr>count := count e + 1\<rparr>)))"
  using assms by (simp add: isRateLimited_def Let_def)

lemma enumerate_Suc_map: "enumerate (Suc n) xs = map (\<lambda>(i, x). (Suc i, x)) (enumerate n xs)"
  by (induction xs arbitrary: n) simp_all

lemma serve_inside:
  assumes "m (getRateLimitKey request) = Some e" and "\<forall>t \<in> set later. t - timestamp e \<le> 300000"
  shows "serve rest request later m
           = map (\<lambda>(i, t). if count e + i < 100 then rest request else tooManyRequests t)
               (enumerate 0 later)"
  using assms
proof (induction later arbitrary: m e)
  case Nil
  then show ?case by simp
next
  case (Cons t later)
  have inside: "t - timestamp e \<le> 300000" using Cons.prems(2) by simp
  show ?case
  proof (cases "100 \<le> count e")
    case True
    have step: "updateSession rest request t m = (tooManyRequests t, m)"
      using True isRateLimited_inside [of m request e t, OF Cons.prems(1) inside]
      by (simp add: updateSession_def)
    have ih: "serve rest request later m
        = map (\<lambda>(i, t). if count e + i < 100 then rest request else tooManyRequests t) (enumerate 0 later)"
    proof (rule Cons.IH)
      show "m (getRateLimitKey request) = Some e" by (rule Cons.prems(1))
      show "\<forall>t \<in> set later. t - timestamp e \<le> 300000" using Cons.prems(2) by simp
    qed
    have "serve rest request (t # later) m = tooManyRequests t # serve rest request later m"
      by (simp add: step)
    also have "\<dots> = tooManyRequests t
        # map (\<lambda>(i, t). if count e + i < 100 then rest request else tooManyRequests t) (enumerate 0 later)"
      by (simp only: ih)
    also have "\<dots> = map (\<lambda>(i, t). if count e + i < 100 then rest request else tooManyRequests t)
        (enumerate 0 (t # later))"
      using True by (simp add: enumerate_Suc_map [of 0] comp_def case_prod_unfold)
    finally show ?thesis .
  next
    case False
    let ?e = "e\<lparr>count := count e + 1\<rparr>"
    let ?m = "m(getRateLimitKey request \<mapsto> ?e)"
    have step: "updateSession rest request t m = (rest request, ?m)"
      using False isRateLimited_inside [of m request e t, OF Cons.prems(1) inside]
      by (simp add: updateSession_def)
    have ih: "serve rest request later ?m
        = map (\<lambda>(i, t). if count ?e + i < 100 then rest request else tooManyRequests t) (enumerate 0 later)"
    proof (rule Cons.IH)
      show "?m (getRateLimitKey request) = Some ?e" by simp
      show "\<forall>t \<in> set later. t - timestamp ?e \<le> 300000" using Cons.prems(2) by simp
    qed
    have "serve rest request (t # later) m = rest request # serve rest request later ?m"
      by (simp add: step)
    also have "\<dots> = rest request
        # map (\<lambda>(i, t). if count ?e + i < 100 then rest request else tooManyRequests t) (enumerate 0 later)"
      by (simp only: ih)
    also have "\<dots> = map (\<lambda>(i, t). if count e + i < 100 then rest request else tooManyRequests t)
        (enumerate 0 (t # later))"
      using False by (simp add: enumerate_Suc_map [of 0] comp_def case_prod_unfold)
    finally show ?thesis .
  qed
qed

lemma isRateLimited_other_key:
  "getRateLimitKey request \<noteq> key \<Longrightarrow> snd (isRateLimited request now m) key = m key"
  by (simp add: isRateLimited_def Let_def split: option.splits)

lemma sweep_keeps_decision:
  assumes "now' \<le> now"
  shows "fst (isRateLimited request now (sweep now' m)) = fst (isRateLimited request now m)"
  using assms by (auto simp: isRateLimited_def sweep_def Let_def split: option.splits)

text \<open>
  Claim C8. A request that finds no window for its client key, or a stale one
  (\<open>now - windowStart > 300000\<close>), opens a window with count 1 and is let through. Of the
  requests of that key that follow within the window, those up to the 100th of the window are
  let through to the rest of the middleware, and every later one is answered with status 429
  and the header \<open>Retry-After: 300\<close>.
\<close>

theorem rate_limit_window:
  assumes "m (getRateLimitKey request) = None
           \<or> (\<exists>e. m (getRateLimitKey request) = Some e \<and> t0 - timestamp e > 300000)"
    and "\<forall>t \<in> set later. t - t0 \<le> 300000"
  shows "isRateLimited request t0 m
           = (False, m(getRateLimitKey request \<mapsto> \<lparr>count = 1, timestamp = t0\<rparr>))
       \<and> serve rest request (t0 # later) m
           = map (\<lambda>(i, t). if i < 100 then rest request else tooManyRequests t)
               (enumerate 0 (t0 # later))
       \<and> status (tooManyRequests t) = 429
       \<and> (js ''Retry-After'', js ''300'') \<in> set (headers (tooManyRequests t))"
proof -
  let ?m = "m(getRateLimitKey request \<mapsto> \<lparr>count = 1, timestamp = t0\<rparr>)"
  have first: "isRateLimited request t0 m = (False, ?m)"
    using assms(1) by (rule isRateLimited_fresh)
  have step: "updateSession rest request t0 m = (rest request, ?m)"
    using first by (simp add: updateSession_def)
  have ih: "serve rest request later ?m
      = map (\<lambda>(i, t). if count \<lparr>count = 1, timestamp = t0\<rparr> + i < 100 then rest request
                        else tooManyRequests t) (enumerate 0 later)"
  proof (rule serve_inside)
    show "?m (getRateLimitKey request) = Some \<lparr>count = 1, timestamp = t0\<rparr>" by simp
    show "\<forall>t \<in> set later. t - timestamp \<lparr>count = 1, timestamp = t0\<rparr> \<le> 300000"
      using assms(2) by simp
  qed
  have "serve rest request (t0 # later) m = rest request # serve rest request later ?m"
    by (simp add: step)
  also have "\<dots> = rest request
      # map (\<lambda>(i, t). if count \<lparr>count = 1, timestamp = t0\<rparr> + i < 100 then rest request
                        else tooManyRequests t) (enumerate 0 later)"
    by (simp only: ih)
  also have "\<dots> = map (\<lambda>(i, t). if i < 100 then rest request else tooManyRequests t)
      (enumerate 0 (t0 # later))"
    by (simp add: enumerate_Suc_map [of 0] comp_def case_prod_unfold)
  finally have "serve rest request (t0 # later) m
      = map (\<lambda>(i, t). if i < 100 then rest request else tooManyRequests t) (enumerate 0 (t0 # later))" .
  then show ?thesis using first by (simp add: tooManyRequests_def)
qed

theorem rate_limit_window_witness:
  "status (serve (\<lambda>r. okResponse) request0 (0 # replicate 100 1) Map.empty ! 99) = 200
   \<and> status (serve (\<lambda>r. okResponse) request0 (0 # replicate 100 1) Map.empty ! 100) = 429
   \<and> fst (isRateLimited request0 300002 (snd (isRateLimited request0 1 Map.empty))) = False"
proof -
  have inside: "\<forall>t \<in> set (replicate 100 (1::int)). t - 0 \<le> 300000" by simp
  have "serve (\<lambda>r. okResponse) request0 (0 # replicate 100 1) Map.empty
      = map (\<lambda>(i, t). if i < 100 then okResponse else tooManyRequests t)
          (enumerate 0 (0 # replicate 100 1))"
    using rate_limit_window [of Map.empty request0 0 "replicate 100 1" "\<lambda>r. okResponse", OF _ inside]
    by simp
  then have run: "status (serve (\<lambda>r. okResponse) request0 (0 # replicate 100 1) Map.empty ! 99) = 200
      \<and> status (serve (\<lambda>r. okResponse) request0 (0 # replicate 100 1) Map.empty ! 100) = 429"
    by (simp add: nth_enumerate_eq okResponse_def tooManyRequests_def)
  have "isRateLimited request0 1 Map.empty
      = (False, Map.empty(getRateLimitKey request0 \<mapsto> \<lparr>count = 1, timestamp = 1\<rparr>))"
    using rate_limit_window [of Map.empty request0 1 "[]"] by simp
  moreover have "fst (isRateLimited request0 300002
      (Map.empty(getRateLimitKey request0 \<mapsto> \<lparr>count = 1, timestamp = 1\<rparr>))) = False"
    using rate_limit_window [of "Map.empty(getRateLimitKey request0 \<mapsto> \<lparr>count = 1, timestamp = 1\<rparr>)"
        request0 300002 "[]"] by simp
  ultimately show ?thesis using run by simp
qed

section \<open>Concurrent vote submissions by one principal\<close>

text \<open>
  A call that runs alone, taking its four steps one after the other, is \<open>submitVote\<close>.
\<close>

lemma submitVote_as_steps:
  "interleave [\<lparr>c_auth = auth, c_pollId = pollId, c_optionIndex = optionIndex\<rparr>]
       [(0, t0), (0, now), (0, t2), (0, insertedAt)] s
     = ([Returned (fst (submitVote auth now insertedAt pollId optionIndex s))],
        snd (submitVote auth now insertedAt pollId optionIndex s))"
  by (simp add: interleave_def advance_def submitVote_def
      split: prod.splits response.splits option.splits)

lemma count_list_update:
  "i < length xs \<Longrightarrow> xs ! i \<noteq> z \<Longrightarrow>
     count_list (xs[i := y]) z = count_list xs z + (if y = z then 1 else 0)"
proof (induction xs arbitrary: i)
  case Nil
  then show ?case by simp
next
  case (Cons x xs)
  then show ?case by (cases i) auto
qed

lemma count_list_none: "list_all (\<lambda>x. x \<noteq> z) xs \<Longrightarrow> count_list xs z = 0"
  by (induction xs) auto

lemma list_all_update: "list_all P xs \<Longrightarrow> P y \<Longrightarrow> list_all P (xs[i := y])"
proof (induction xs arbitrary: i)
  case Nil
  then show ?case by simp
next
  case (Cons x xs)
  then show ?case by (cases i) auto
qed

lemma rank_step: "min 4 (Suc (rank pc)) \<le> rank (fst (vote_step c t pc s))"
proof (cases pc)
  case Begin
  have "rank (fst (vote_step c t Begin s)) \<noteq> 0"
    by (simp add: selectPollSingle_eq split: option.splits response.splits list.splits)
  with Begin show ?thesis by simp
next
  case (AwaitVote u)
  then show ?thesis by (auto split: prod.splits)
next
  case (AwaitRecent u oneMinuteAgo)
  then show ?thesis by (auto split: prod.splits)
next
  case (AwaitInsert u)
  then show ?thesis by (auto split: prod.splits response.splits)
next
  case (Returned r)
  then show ?thesis by simp
qed

lemma step_Begin:
  assumes "sameVoter uid pollId (length (p_options poll)) c" and "10 \<le> length pollId" and "uid \<noteq> []"
    and "pollRows pollId s = [poll]" and "nextFault s 0 = None"
  shows "vote_step c t Begin s = (AwaitVote uid, s\<lparr>statements := statements s @ [(Select, Polls)]\<rparr>)"
proof -
  have c: "user (c_auth c) = Some uid" "c_pollId c = pollId"
    "inRange (c_optionIndex c) (length (p_options poll))"
    using assms(1) by (simp_all add: sameVoter_def)
  have "pollId \<noteq> []" using assms(2) by auto
  then show ?thesis
    using c assms(2-5) by (simp add: selectPollSingle_eq inRange_iff)
qed

lemma step_AwaitVote:
  assumes "c_pollId c = pollId" and "nextFault s 0 = None"
  shows "vote_step c t (AwaitVote uid) s =
           (if length (voteRows pollId uid s) = 1
            then Returned (Some (js ''You have already voted on this poll''))
            else AwaitRecent uid (t - 60000),
            s\<lparr>statements := statements s @ [(Select, Votes)]\<rparr>)"
  using assms data_of_single [of "voteRows pollId uid s"]
  by (auto simp: selectVoteSingle_eq)

lemma step_AwaitRecent:
  assumes "nextFault s 0 = None"
  shows "vote_step c t (AwaitRecent uid oneMinuteAgo) s =
           (if 5 \<le> length (recentRows uid oneMinuteAgo s)
            then Returned (Some (js ''Too many votes. Please wait a moment.'')) else AwaitInsert uid,
            s\<lparr>statements := statements s @ [(Select, Votes)]\<rparr>)"
  using assms by (simp add: selectVotesSince_eq)

lemma step_AwaitInsert:
  assumes "sameVoter uid pollId (length (p_options poll)) c"
    and "pollRows pollId s = [poll]" and "nextFault s 0 = None"
  shows "vote_step c t (AwaitInsert uid) s =
           (if voteRows pollId uid s \<noteq> []
            then (Returned (Some (js ''Failed to submit vote. Please try again.'')),
                  s\<lparr>statements := statements s @ [(Insert, Votes)]\<rparr>)
            else (Returned None,
                  s\<lparr>statements := statements s @ [(Insert, Votes)],
                     votes := votes s @ [\<lparr>v_poll_id = pollId, v_user_id = Some uid,
                                          v_option_index = toInteger (c_optionIndex c),
                                          v_created_at = t\<rparr>]\<rparr>))"
proof -
  have c: "c_pollId c = pollId" "inRange (c_optionIndex c) (length (p_options poll))"
    using assms(1) by (simp_all add: sameVoter_def)
  have idx: "toInteger (c_optionIndex c) = int (nat (toInteger (c_optionIndex c)))"
    "nat (toInteger (c_optionIndex c)) < length (p_options poll)"
    using toInteger_inRange [OF c(2)] by blast+
  have trig: "\<exists>p \<in> set (polls s). p_id p = pollId
      \<and> toInteger (c_optionIndex c) < int (length (p_options p))"
    using pollRows_single [OF assms(2)] idx by (intro bexI [of _ poll]) auto
  have nonneg: "\<not> toInteger (c_optionIndex c) < 0" using idx(1) by linarith
  show ?thesis
    using trig nonneg c(1) assms(3)
    by (simp add: insertVote_eq voteRows_nonempty)
qed


lemma voteInv_keep:
  assumes "voteInv uid pollId s0 n (pcs, s)" and "i < n"
    and "pcs ! i \<noteq> Returned None" and "pc' \<noteq> Returned None" and "okPc uid s0 pc'"
    and "votes s = votes s0 \<longrightarrow> \<not> isReturned pc'"
    and "polls s' = polls s" and "votes s' = votes s" and "faults s' = faults s"
  shows "voteInv uid pollId s0 n (pcs[i := pc'], s')"
proof -
  have len: "length pcs = n" and ok: "list_all (okPc uid s0) pcs"
    using assms(1) by (simp_all add: voteInv_def)
  have cnt: "count_list (pcs[i := pc']) (Returned None) = count_list pcs (Returned None)"
    using count_list_update [of i pcs "Returned None" pc'] assms(2-4) len by simp
  have alt: "(votes s = votes s0 \<and> list_all (\<lambda>pc. \<not> isReturned pc) pcs)
      \<or> (\<exists>row. votes s = votes s0 @ [row] \<and> v_poll_id row = pollId
             \<and> v_user_id row = Some uid \<and> count_list pcs (Returned None) = 1)"
    using assms(1) by (simp add: voteInv_def)
  then have "(votes s' = votes s0 \<and> list_all (\<lambda>pc. \<not> isReturned pc) (pcs[i := pc']))
      \<or> (\<exists>row. votes s' = votes s0 @ [row] \<and> v_poll_id row = pollId
             \<and> v_user_id row = Some uid \<and> count_list (pcs[i := pc']) (Returned None) = 1)"
  proof
    assume l: "votes s = votes s0 \<and> list_all (\<lambda>pc. \<not> isReturned pc) pcs"
    then have "\<not> isReturned pc'" using assms(6) by simp
    with l have "list_all (\<lambda>pc. \<not> isReturned pc) (pcs[i := pc'])"
      by (intro list_all_update) simp_all
    with l assms(8) show ?thesis by simp
  next
    assume "\<exists>row. votes s = votes s0 @ [row] \<and> v_poll_id row = pollId
             \<and> v_user_id row = Some uid \<and> count_list pcs (Returned None) = 1"
    with cnt assms(8) show ?thesis by simp
  qed
  moreover have "list_all (okPc uid s0) (pcs[i := pc'])"
    using ok assms(5) by (rule list_all_update)
  ultimately show ?thesis
    using assms(1,7,9) by (simp add: voteInv_def)
qed

lemma voteInv_insert:
  assumes "voteInv uid pollId s0 n (pcs, s)" and "i < n"
    and "votes s = votes s0"
    and "polls s' = polls s" and "votes s' = votes s @ [row]" and "faults s' = faults s"
    and "v_poll_id row = pollId" and "v_user_id row = Some uid"
  shows "voteInv uid pollId s0 n (pcs[i := Returned None], s')"
proof -
  have len: "length pcs = n" and ok: "list_all (okPc uid s0) pcs"
    using assms(1) by (simp_all add: voteInv_def)
  have none: "list_all (\<lambda>pc. \<not> isReturned pc) pcs"
    using assms(1,3) by (auto simp: voteInv_def)
  then have "list_all (\<lambda>pc. pc \<noteq> Returned None) pcs"
    by (induction pcs) auto
  then have zero: "count_list pcs (Returned None) = 0" by (rule count_list_none)
  have "pcs ! i \<noteq> Returned None"
    using none assms(2) len by (metis isReturned.simps(1) list_all_length)
  then have "count_list (pcs[i := Returned None]) (Returned None) = 1"
    using count_list_update [of i pcs "Returned None" "Returned None"] assms(2) len zero by simp
  moreover have "list_all (okPc uid s0) (pcs[i := Returned None])"
    using ok by (intro list_all_update) simp_all
  ultimately show ?thesis
    using assms(1,3-8) by (simp add: voteInv_def)
qed

lemma voteInv_advance:
  assumes inv: "voteInv uid pollId s0 n (pcs, s)"
    and calls: "length calls = n" "list_all (sameVoter uid pollId (length (p_options poll))) calls"
    and ids: "10 \<le> length pollId" "uid \<noteq> []"
    and s0: "pollRows pollId s0 = [poll]" "voteRows pollId uid s0 = []" "\<forall>k. faults s0 k = None"
    and rate: "length (recentRows uid (t - 60000) s0) < 5"
  shows "voteInv uid pollId s0 n (advance calls (i, t) (pcs, s))"
proof (cases "i < n")
  case False
  then show ?thesis using inv calls(1) by (simp add: advance_def voteInv_def)
next
  case True
  have len: "length pcs = n" and ok: "list_all (okPc uid s0) pcs"
    and ps: "polls s = polls s0" and fs: "faults s = faults s0"
    using inv by (simp_all add: voteInv_def)
  define c where "c = calls ! i"
  have c: "sameVoter uid pollId (length (p_options poll)) c"
    using calls True by (simp add: c_def list_all_length)
  have cp: "c_pollId c = pollId" using c by (simp add: sameVoter_def)
  have okpc: "okPc uid s0 (pcs ! i)" using ok True len by (simp add: list_all_length)
  have rows: "pollRows pollId s = [poll]" using s0(1) ps by (simp add: pollRows_def)
  have nf: "nextFault s 0 = None" using s0(3) fs by (simp add: nextFault_def)
  have adv: "advance calls (i, t) (pcs, s)
      = (pcs[i := fst (vote_step c t (pcs ! i) s)], snd (vote_step c t (pcs ! i) s))"
    using True len calls(1) by (simp add: advance_def c_def split: prod.splits)
  have alt: "(votes s = votes s0 \<and> list_all (\<lambda>pc. \<not> isReturned pc) pcs)
      \<or> (\<exists>row. votes s = votes s0 @ [row] \<and> v_poll_id row = pollId
             \<and> v_user_id row = Some uid \<and> count_list pcs (Returned None) = 1)"
    using inv by (simp add: voteInv_def)
  have fresh: "voteRows pollId uid s = []" "recentRows uid cutoff s = recentRows uid cutoff s0"
    if "votes s = votes s0" for cutoff
    using that s0(2) by (simp_all add: voteRows_def recentRows_def)
  have voted: "length (voteRows pollId uid s) = 1" if "votes s \<noteq> votes s0"
  proof -
    from alt that obtain row where "votes s = votes s0 @ [row]" "v_poll_id row = pollId"
      "v_user_id row = Some uid" by auto
    then show ?thesis using s0(2) by (simp add: voteRows_def)
  qed
  show ?thesis
  proof (cases "pcs ! i")
    case Begin
    have "vote_step c t Begin s = (AwaitVote uid, s\<lparr>statements := statements s @ [(Select, Polls)]\<rparr>)"
      using c ids rows nf by (rule step_Begin)
    then show ?thesis
      unfolding adv Begin
      using voteInv_keep [OF inv True, of "AwaitVote uid"] Begin by simp
  next
    case (AwaitVote u)
    then have u: "u = uid" using okpc by simp
    show ?thesis
    proof (cases "votes s = votes s0")
      case True
      then have "vote_step c t (AwaitVote uid) s
          = (AwaitRecent uid (t - 60000), s\<lparr>statements := statements s @ [(Select, Votes)]\<rparr>)"
        using step_AwaitVote [OF cp nf, of t uid] fresh(1) by simp
      then show ?thesis
        unfolding adv AwaitVote u
        using voteInv_keep [OF inv \<open>i < n\<close>, of "AwaitRecent uid (t - 60000)"] AwaitVote rate
        by simp
    next
      case False
      then have "vote_step c t (AwaitVote uid) s
          = (Returned (Some (js ''You have already voted on this poll'')),
             s\<lparr>statements := statements s @ [(Select, Votes)]\<rparr>)"
        using step_AwaitVote [OF cp nf, of t uid] voted by simp
      then show ?thesis
        unfolding adv AwaitVote u
        using voteInv_keep [OF inv \<open>i < n\<close>,
            of "Returned (Some (js ''You have already voted on this poll''))"] AwaitVote False
        by (simp add: rejection_def)
    qed
  next
    case (AwaitRecent u cutoff)
    then have u: "u = uid" and few: "length (recentRows uid cutoff s0) < 5"
      using okpc by simp_all
    show ?thesis
    proof (cases "5 \<le> length (recentRows uid cutoff s)")
      case True
      then have ne: "votes s \<noteq> votes s0" using fresh(2) [of cutoff] few by auto
      have "vote_step c t (AwaitRecent uid cutoff) s
          = (Returned (Some (js ''Too many votes. Please wait a moment.'')),
             s\<lparr>statements := statements s @ [(Select, Votes)]\<rparr>)"
        using step_AwaitRecent [OF nf, of c t uid cutoff] True by simp
      then show ?thesis
        unfolding adv AwaitRecent u
        using voteInv_keep [OF inv \<open>i < n\<close>,
            of "Returned (Some (js ''Too many votes. Please wait a moment.''))"] AwaitRecent ne
        by (simp add: rejection_def)
    next
      case False
      then have "vote_step c t (AwaitRecent uid cutoff) s
          = (AwaitInsert uid, s\<lparr>statements := statements s @ [(Select, Votes)]\<rparr>)"
        using step_AwaitRecent [OF nf, of c t uid cutoff] by simp
      then show ?thesis
        unfolding adv AwaitRecent u
        using voteInv_keep [OF inv \<open>i < n\<close>, of "AwaitInsert uid"] AwaitRecent by simp
    qed
  next
    case (AwaitInsert u)
    then have u: "u = uid" using okpc by simp
    show ?thesis
    proof (cases "votes s = votes s0")
      case True
      then have "vote_step c t (AwaitInsert uid) s
          = (Returned None,
             s\<lparr>statements := statements s @ [(Insert, Votes)],
                votes := votes s @ [\<lparr>v_poll_id = pollId, v_user_id = Some uid,
                                     v_option_index = toInteger (c_optionIndex c),
                                     v_created_at = t\<rparr>]\<rparr>)"
        using step_AwaitInsert [OF c rows nf, of t] fresh(1) by simp
      then show ?thesis
        unfolding adv AwaitInsert u
        using voteInv_insert [OF inv \<open>i < n\<close> True] by simp
    next
      case False
      then have "voteRows pollId uid s \<noteq> []" using voted by auto
      then have "vote_step c t (AwaitInsert uid) s
          = (Returned (Some (js ''Failed to submit vote. Please try again.'')),
             s\<lparr>statements := statements s @ [(Insert, Votes)]\<rparr>)"
        using step_AwaitInsert [OF c rows nf, of t] by simp
      then show ?thesis
        unfolding adv AwaitInsert u
        using voteInv_keep [OF inv \<open>i < n\<close>,
            of "Returned (Some (js ''Failed to submit vote. Please try again.''))"] AwaitInsert False
        by (simp add: rejection_def)
    qed
  next
    case (Returned r)
    have "pcs[i := Returned r] = pcs" using Returned by (metis list_update_id)
    with Returned show ?thesis
      unfolding adv using inv by simp
  qed
qed

lemma voteInv_initial:
  "voteInv uid pollId s0 n (replicate n Begin, s0)"
  by (simp add: voteInv_def list_all_length)

lemma voteInv_run:
  assumes "voteInv uid pollId s0 n sys"
    and "length calls = n" and "list_all (sameVoter uid pollId (length (p_options poll))) calls"
    and "10 \<le> length pollId" and "uid \<noteq> []"
    and "pollRows pollId s0 = [poll]" and "voteRows pollId uid s0 = []" and "\<forall>k. faults s0 k = None"
    and "\<forall>(i, t) \<in> set schedule. length (recentRows uid (t - 60000) s0) < 5"
  shows "voteInv uid pollId s0 n (fold (advance calls) schedule sys)"
  using assms(1,9)
proof (induction schedule arbitrary: sys)
  case Nil
  then show ?case by simp
next
  case (Cons e schedule)
  obtain i t where e: "e = (i, t)" by (cases e)
  obtain pcs s where sys: "sys = (pcs, s)" by (cases sys)
  have rate: "length (recentRows uid (t - 60000) s0) < 5" using Cons.prems(2) e by simp
  have "voteInv uid pollId s0 n (advance calls e sys)"
    unfolding e sys
    using Cons.prems(1) assms(2-8) rate unfolding sys by (rule voteInv_advance)
  moreover have "\<forall>(i, t) \<in> set schedule. length (recentRows uid (t - 60000) s0) < 5"
    using Cons.prems(2) by simp
  ultimately show ?case using Cons.IH by simp
qed

lemma rank_le_4: "rank pc \<le> 4"
  by (cases pc) simp_all

lemma rank_4_Returned: "rank pc = 4 \<longleftrightarrow> isReturned pc"
  by (cases pc) simp_all

lemma advance_rank:
  assumes "length pcs = length calls" and "i < length pcs"
  shows "length (fst (advance calls (j, t) (pcs, s))) = length pcs
       \<and> min 4 (rank (pcs ! i) + (if j = i then 1 else 0)) \<le> rank (fst (advance calls (j, t) (pcs, s)) ! i)"
proof (cases "j < length pcs")
  case False
  then show ?thesis using assms by (auto simp: advance_def)
next
  case True
  obtain pc' s' where st: "vote_step (calls ! j) t (pcs ! j) s = (pc', s')"
    by (cases "vote_step (calls ! j) t (pcs ! j) s")
  have adv: "advance calls (j, t) (pcs, s) = (pcs[j := pc'], s')"
    using True assms(1) st by (simp add: advance_def)
  have up: "min 4 (Suc (rank (pcs ! j))) \<le> rank pc'"
    using rank_step [of "pcs ! j" "calls ! j" t s] st by simp
  show ?thesis
  proof (cases "j = i")
    case True
    then show ?thesis using adv up assms(2) by simp
  next
    case False
    then show ?thesis using adv assms(2) by simp
  qed
qed

lemma rank_run:
  assumes "length pcs = length calls" and "i < length pcs"
  shows "length (fst (fold (advance calls) schedule (pcs, s))) = length pcs
       \<and> min 4 (rank (pcs ! i) + count_list (map fst schedule) i)
           \<le> rank (fst (fold (advance calls) schedule (pcs, s)) ! i)"
  using assms
proof (induction schedule arbitrary: pcs s)
  case Nil
  then show ?case by simp
next
  case (Cons e schedule)
  obtain j t where e: "e = (j, t)" by (cases e)
  obtain pcs' s' where adv: "advance calls (j, t) (pcs, s) = (pcs', s')"
    by (cases "advance calls (j, t) (pcs, s)")
  have one: "length pcs' = length pcs"
    "min 4 (rank (pcs ! i) + (if j = i then 1 else 0)) \<le> rank (pcs' ! i)"
    using advance_rank [OF Cons.prems, of j t s] adv by simp_all
  have ih: "length (fst (fold (advance calls) schedule (pcs', s'))) = length pcs'
       \<and> min 4 (rank (pcs' ! i) + count_list (map fst schedule) i)
           \<le> rank (fst (fold (advance calls) schedule (pcs', s')) ! i)"
    using Cons.IH [of pcs' s'] Cons.prems one(1) by simp
  have cnt: "count_list (map fst (e # schedule)) i
      = (if j = i then 1 else 0) + count_list (map fst schedule) i"
    using e by simp
  have "min 4 (rank (pcs ! i) + count_list (map fst (e # schedule)) i)
      \<le> min 4 (rank (pcs' ! i) + count_list (map fst schedule) i)"
    unfolding cnt using one(2) by (cases "j = i") (simp_all add: min_def split: if_splits)
  then have "min 4 (rank (pcs ! i) + count_list (map fst (e # schedule)) i)
      \<le> rank (fst (fold (advance calls) schedule (pcs', s')) ! i)"
    using ih by linarith
  moreover have "fold (advance calls) (e # schedule) (pcs, s) = fold (advance calls) schedule (pcs', s')"
    using e adv by simp
  ultimately show ?case using ih one(1) by simp
qed

lemma example_ids: "\<not> length pollA < 10" "pollA \<noteq> []" "bob \<noteq> []"
  by (simp_all add: pollA_def bob_def js_def)

text \<open>
  Claim C4, as stated: of N concurrent calls of one principal for one poll exactly one
  succeeds and every other call is rejected as already voted. Two calls of Bob for Alice's
  poll, scheduled in turns, both find no earlier vote and both pass the ceiling; the first
  insert is accepted, the second violates the unique index on \<open>(poll_id, user_id)\<close>, and
  its call returns \<open>Failed to submit vote. Please try again.\<close>, which is not the
  already-voted rejection.
\<close>

theorem concurrent_votes_race:
  "fst (interleave [bobVote 0, bobVote 1] racing store0)
     = [Returned None, Returned (Some (js ''Failed to submit vote. Please try again.''))]
   \<and> js ''Failed to submit vote. Please try again.'' \<noteq> js ''You have already voted on this poll''"
  by (simp add: interleave_def racing_def advance_def bobVote_def authOf_def example_ids
      selectPollSingle_def selectVoteSingle_def selectVotesSince_def insertVote_def send_def
      store0_def bestColor_def js_def)

text \<open>
  Claim C4, amended. Let one signed-in principal make any number (at least one) of concurrent
  calls for one existing poll, each with an option index in range; let the store answer
  every statement, let the principal have no vote on the poll yet, and fewer than five votes
  in the 60 seconds before each step. Then under every schedule that gives each call its
  four steps, all calls return, exactly one of them succeeds, the table holds exactly one vote
  of the principal on the poll, and every other call returns one of the three rejections
  \<open>You have already voted on this poll\<close>, \<open>Too many votes. Please wait a moment.\<close> and
  \<open>Failed to submit vote. Please try again.\<close>
\<close>

theorem concurrent_votes_exactly_one:
  assumes "calls \<noteq> []" and "list_all (sameVoter uid pollId (length (p_options poll))) calls"
    and "10 \<le> length pollId" and "uid \<noteq> []"
    and "pollRows pollId s0 = [poll]" and "voteRows pollId uid s0 = []" and "\<forall>k. faults s0 k = None"
    and "\<forall>(i, t) \<in> set schedule. length (recentRows uid (t - 60000) s0) < 5"
    and "\<forall>i < length calls. 4 \<le> count_list (map fst schedule) i"
  shows "count_list (fst (interleave calls schedule s0)) (Returned None) = 1
       \<and> list_all (\<lambda>pc. pc = Returned None \<or> (\<exists>e. pc = Returned (Some e) \<and> rejection e))
           (fst (interleave calls schedule s0))
       \<and> length (voteRows pollId uid (snd (interleave calls schedule s0))) = 1"
proof -
  define n where "n = length calls"
  obtain pcs s where fin: "interleave calls schedule s0 = (pcs, s)"
    by (cases "interleave calls schedule s0")
  have inv: "voteInv uid pollId s0 n (pcs, s)"
    using voteInv_run [OF voteInv_initial _ assms(2-8), of n] fin
    by (simp add: interleave_def n_def)
  have len: "length pcs = n" and ok: "list_all (okPc uid s0) pcs"
    using inv by (simp_all add: voteInv_def)
  have ret: "isReturned (pcs ! i)" if "i < n" for i
  proof -
    have "min 4 (rank (replicate n Begin ! i) + count_list (map fst schedule) i)
        \<le> rank (fst (fold (advance calls) schedule (replicate n Begin, s0)) ! i)"
      using rank_run [of "replicate n Begin" calls i schedule s0] that by (simp add: n_def)
    moreover have "4 \<le> count_list (map fst schedule) i" using assms(9) that by (simp add: n_def)
    ultimately have "4 \<le> rank (pcs ! i)"
      using fin that by (simp add: interleave_def n_def)
    then show ?thesis using rank_le_4 [of "pcs ! i"] rank_4_Returned [of "pcs ! i"] by simp
  qed
  have "0 < n" using assms(1) by (simp add: n_def)
  then have "\<not> list_all (\<lambda>pc. \<not> isReturned pc) pcs"
    using ret [of 0] len by (auto simp: list_all_length)
  then obtain row where row: "votes s = votes s0 @ [row]" "v_poll_id row = pollId"
    "v_user_id row = Some uid" and one: "count_list pcs (Returned None) = 1"
    using inv by (auto simp: voteInv_def)
  have rows: "length (voteRows pollId uid s) = 1"
    using row assms(6) by (simp add: voteRows_def)
  have "pc = Returned None \<or> (\<exists>e. pc = Returned (Some e) \<and> rejection e)"
    if "pc \<in> set pcs" for pc
  proof -
    from that obtain i where i: "i < n" "pcs ! i = pc" using len by (auto simp: in_set_conv_nth)
    then have "isReturned pc" "okPc uid s0 pc" using ret ok len by (auto simp: list_all_length)
    then show ?thesis
    proof (cases pc)
      case (Returned r)
      with \<open>okPc uid s0 pc\<close> show ?thesis by (cases r) simp_all
    qed simp_all
  qed
  then have "list_all (\<lambda>pc. pc = Returned None \<or> (\<exists>e. pc = Returned (Some e) \<and> rejection e)) pcs"
    by (simp add: list_all_iff)
  with one rows show ?thesis by (simp add: fin)
qed

theorem concurrent_votes_exactly_one_witness:
  "count_list (fst (interleave [bobVote 0, bobVote 1] racing store0)) (Returned None) = 1
   \<and> length (voteRows pollA bob (snd (interleave [bobVote 0, bobVote 1] racing store0))) = 1"
proof -
  have calls: "list_all (sameVoter bob pollA (length (p_options bestColor))) [bobVote 0, bobVote 1]"
    by (simp add: sameVoter_def bobVote_def authOf_def inRange_iff bestColor_def)
  have l: "10 \<le> length pollA" and b: "bob \<noteq> []"
    using example_ids by simp_all
  have rows: "pollRows pollA store0 = [bestColor]" "voteRows pollA bob store0 = []"
    by (simp_all add: pollRows_def voteRows_def store0_def bestColor_def)
  have nf: "\<forall>k. faults store0 k = None" by (simp add: store0_def)
  have rate: "\<forall>(i, t) \<in> set racing. length (recentRows bob (t - 60000) store0) < 5"
    by (simp add: recentRows_def store0_def)
  have fair: "\<forall>i < length [bobVote 0, bobVote 1]. 4 \<le> count_list (map fst racing) i"
    by (auto simp: racing_def less_Suc_eq)
  show ?thesis
    using concurrent_votes_exactly_one [OF _ calls l b rows nf rate fair] by simp
qed

end
